theory Spec2Isabelle
  imports Main "HOL-Library.DAList"
begin

section \<open>Errors\<close>

text \<open>
  Every \<^verbatim>\<open>throw\<close> of the source is a value.  \<open>RemirrorError code subject\<close> is what
  \<^verbatim>\<open>invariant(false, {code, message})\<close> raises: the error constant and the one string the
  message is built from.  \<open>TypeError p\<close> is JavaScript's own error when the property \<open>p\<close>
  is \<^verbatim>\<open>undefined\<close> and is called or dereferenced.  \<open>RangeError\<close> is the engine's answer
  to unbounded recursion (call stack exhausted).
\<close>

datatype ErrorConstant = DUPLICATE_HELPER_NAMES | MUTATION | CORE_HELPERS

datatype error =
    RemirrorError ErrorConstant string
  | TypeError string
  | RangeError

section \<open>core-helpers/src/freeze.ts\<close>

text \<open>
  A JavaScript object is either a plain object (its own properties) or the proxy that the
  source builds with \<^verbatim>\<open>new Proxy(target, {set: ...})\<close>, whose only trap is \<^verbatim>\<open>set\<close>.
\<close>

datatype 'v js_object =
    Object "string \<rightharpoonup> 'v"
  | Proxy "'v js_object"

text \<open>
  The assignment \<^verbatim>\<open>obj[prop] = v\<close>.  On a plain object it stores the value; on the proxy
  it runs the \<^verbatim>\<open>set\<close> trap of lines 27-34, which raises the \<open>MUTATION\<close> invariant
  naming the property.
\<close>

fun set_property :: "'v js_object \<Rightarrow> string \<Rightarrow> 'v \<Rightarrow> error + 'v js_object" where
  "set_property (Object fields) prop v = Inr (Object (fields(prop \<mapsto> v)))"
| "set_property (Proxy target) prop v = Inl (RemirrorError MUTATION prop)"

text \<open>
  \<^verbatim>\<open>freeze\<close>, lines 16-36.  The first statement of the body is \<^verbatim>\<open>return target;\<close>, so
  the function is the identity: the production test, the invariant and the proxy that
  follow the \<^verbatim>\<open>return\<close> are never reached.
\<close>

definition freeze :: "'v js_object \<Rightarrow> 'v js_object" where
  "freeze target = target"

text \<open>
  The statements after the \<^verbatim>\<open>return\<close> (lines 18-35), as they would run if they were
  reached outside production: both \<open>Object\<close> and \<open>Proxy\<close> pass the
  \<^verbatim>\<open>isObject(target) || isArray(target)\<close> invariant, and the result is the proxy.
\<close>

definition freeze_after_return :: "'v js_object \<Rightarrow> error + 'v js_object" where
  "freeze_after_return target = Inr (Proxy target)"

section \<open>core/src/builtins/decorators.ts\<close>

text \<open>
  An options object (\<^verbatim>\<open>Shape\<close>): its own keys with their values, in insertion order.
\<close>

type_synonym 'o Shape = "(string \<times> 'o) list"

text \<open>
  Modelled from the spec: \<^verbatim>\<open>isEmptyObject\<close> of \<^verbatim>\<open>@remirror/core-helpers\<close> is not part
  of the excerpt; it holds of an object that has no own key.
\<close>

definition isEmptyObject :: "(string \<times> 'x) list \<Rightarrow> bool" where
  "isEmptyObject obj = (obj = [])"

datatype kind = Plain | Mark | Node

text \<open>
  An extension unit.  \<open>self\<close> is the instance data that a method sees as \<^verbatim>\<open>this\<close>;
  \<open>methods\<close> are the function-valued properties of the unit, each taking \<^verbatim>\<open>this\<close>
  first, so that \<^verbatim>\<open>m.bind(extension)\<close> is \<open>m (self extension)\<close>.  \<open>createHelpers\<close> is
  the optional method of that name (\<open>None\<close> when the unit does not define it); the three
  \<open>decorated\<close> maps are \<open>None\<close> while \<^verbatim>\<open>undefined\<close>.  An object whose keys are iterated
  is a \<open>DAList\<close>: distinct keys, in insertion order (helper names are method and
  property names; keys that read as array indices, which JavaScript would iterate first,
  are not modelled).  A decorator receives the class prototype as \<^verbatim>\<open>target\<close>; the unit
  stands for both prototype and instance.
\<close>

record ('self, 'h, 'o, 't) extension =
  name :: string
  kind :: kind
  type :: 't
  self :: 'self
  methods :: "string \<rightharpoonup> ('self \<Rightarrow> 'h)"
  createHelpers :: "('self \<Rightarrow> (string, 'h) alist) option"
  decoratedHelpers :: "(string, 'o Shape) alist option"
  decoratedCommands :: "(string, 'o Shape) alist option"
  decoratedKeybindings :: "(string, 'o Shape) alist option"

text \<open>
  \<^verbatim>\<open>(target.decoratedX ??= {})[propertyKey] = options\<close>: the map is created when absent,
  then the entry is written.
\<close>

definition assign_decorated ::
  "(string, 'o Shape) alist option \<Rightarrow> string \<Rightarrow> 'o Shape \<Rightarrow> (string, 'o Shape) alist option" where
  "assign_decorated decorated propertyKey options =
     Some (DAList.update propertyKey options
       (case decorated of None \<Rightarrow> DAList.empty | Some m \<Rightarrow> m))"

text \<open>
  \<^verbatim>\<open>helper\<close>, lines 65-78.  The argument is \<open>None\<close> when the decorator is called without
  options (the default \<^verbatim>\<open>= {}\<close>).  The descriptor holds the decorated method.
\<close>

definition helper ::
  "'o Shape option \<Rightarrow> ('self, 'h, 'o, 't) extension \<Rightarrow> string \<Rightarrow> 'd \<Rightarrow> ('self, 'h, 'o, 't) extension" where
  "helper opts target propertyKey descriptor =
     (let options = (case opts of None \<Rightarrow> [] | Some x \<Rightarrow> x)
      in target\<lparr>decoratedHelpers := assign_decorated (decoratedHelpers target) propertyKey options\<rparr>)"



text \<open>Reading \<^verbatim>\<open>target.decoratedX?.[key]\<close>.\<close>

definition decorated_entry :: "(string, 'o Shape) alist option \<Rightarrow> string \<Rightarrow> 'o Shape option" where
  "decorated_entry decorated key =
     (case decorated of None \<Rightarrow> None | Some m \<Rightarrow> DAList.lookup m key)"

section \<open>Type declarations as data\<close>

text \<open>
  The part of the TypeScript type language that the declarations of
  \<^verbatim>\<open>collaboration-types.ts\<close> and \<^verbatim>\<open>extension-types.ts\<close> use.  An interface or a
  mapped type is a finite map from member names to member types.
\<close>

datatype ts_type =
    TNumber | TString | TBoolean | TVoid | TNever | TAny
  | TRef string
  | TArray ts_type
  | TUnion ts_type ts_type
  | TIntersection ts_type ts_type
  | TFunction "ts_type list" ts_type
  | TBrand ts_type string
  | TCommandShape "ts_type list"

type_synonym interface = "string \<rightharpoonup> ts_type"

text \<open>\<^verbatim>\<open>Omit<T, K>\<close>: the members of \<open>T\<close> whose name is not in \<open>K\<close>.\<close>

definition Omit :: "interface \<Rightarrow> string set \<Rightarrow> interface" where
  "Omit T K = T |` (- K)"

text \<open>
  \<^verbatim>\<open>interface I extends Base { own }\<close>: the inherited members together with the declared
  ones.
\<close>

definition interface_extends :: "interface \<Rightarrow> interface \<Rightarrow> interface" where
  "interface_extends base own = base ++ own"

subsection \<open>extension-collaboration/src/collaboration-types.ts\<close>

definition Sendable :: interface where
  "Sendable =
     [''version'' \<mapsto> TNumber,
      ''steps'' \<mapsto> TArray (TRef ''Step<EditorSchema>''),
      ''clientID'' \<mapsto> TUnion TNumber TString,
      ''origins'' \<mapsto> TArray (TRef ''Transaction'')]"

definition JSONSendable :: interface where
  "JSONSendable =
     interface_extends (Omit Sendable {''steps'', ''origins''})
       [''steps'' \<mapsto> TArray (TRef ''PlainObject'')]"

subsection \<open>The command surfaces of extension-types.ts\<close>

text \<open>
  Modelled from the spec: \<^verbatim>\<open>CommandFunction\<close> and \<^verbatim>\<open>NonChainableCommandFunction\<close> of
  \<^verbatim>\<open>@remirror/core-types\<close> are not part of the excerpt.  A command function takes the
  dispatch context and returns a success boolean; a command is chainable unless it is
  explicitly marked non-chainable, and the mark is a nominal brand on the function type.
\<close>

definition CommandFunction :: ts_type where
  "CommandFunction = TFunction [TRef ''CommandFunctionParameter''] TBoolean"

definition NonChainableCommandFunction :: ts_type where
  "NonChainableCommandFunction = TBrand CommandFunction ''non-chainable''"

text \<open>\<^verbatim>\<open>ReturnType<F>\<close> and \<^verbatim>\<open>Parameters<F>\<close>.\<close>

fun ReturnType :: "ts_type \<Rightarrow> ts_type" where
  "ReturnType (TFunction ps r) = r"
| "ReturnType (TBrand t b) = ReturnType t"
| "ReturnType t = TAny"

fun Parameters :: "ts_type \<Rightarrow> ts_type list" where
  "Parameters (TFunction ps r) = ps"
| "Parameters (TBrand t b) = Parameters t"
| "Parameters t = []"

text \<open>
  \<^verbatim>\<open>T extends NonChainableCommandFunction\<close>: only a type that carries the brand is
  assignable to the branded type.
\<close>

fun extends_NonChainableCommandFunction :: "ts_type \<Rightarrow> bool" where
  "extends_NonChainableCommandFunction (TBrand t b) = (b = ''non-chainable'' \<and> t = CommandFunction)"
| "extends_NonChainableCommandFunction TNever = True"
| "extends_NonChainableCommandFunction t = False"

text \<open>
  A member that can be invoked: a function type, a branded function type, or the
  \<^verbatim>\<open>CommandShape\<close> of the direct surface (a call signature with extra properties).
\<close>

fun callable :: "ts_type \<Rightarrow> bool" where
  "callable (TFunction ps r) = True"
| "callable (TBrand t b) = callable t"
| "callable (TCommandShape ps) = True"
| "callable t = False"

text \<open>\<^verbatim>\<open>MapToUnchainedCommand\<close>, lines 34-36.\<close>

definition MapToUnchainedCommand :: "interface \<Rightarrow> interface" where
  "MapToUnchainedCommand RawCommands =
     (\<lambda>Command. map_option (\<lambda>raw. TCommandShape (Parameters raw)) (RawCommands Command))"

text \<open>\<^verbatim>\<open>MapToChainedCommand\<close>, lines 41-47.\<close>

definition MapToChainedCommand :: "interface \<Rightarrow> interface" where
  "MapToChainedCommand RawCommands =
     (\<lambda>Command. map_option
        (\<lambda>raw. if extends_NonChainableCommandFunction (ReturnType raw) then TVoid
               else TFunction (Parameters raw) TAny)
        (RawCommands Command))"

text \<open>\<^verbatim>\<open>ChainedCommandRunParameter\<close>, lines 71-82.\<close>

definition ChainedCommandRunParameter :: interface where
  "ChainedCommandRunParameter = [''run'' \<mapsto> TFunction [] TVoid]"

text \<open>The member type of an intersection of two object types; \<^verbatim>\<open>X & never\<close> is \<^verbatim>\<open>never\<close>.\<close>

definition intersect_member :: "ts_type option \<Rightarrow> ts_type option \<Rightarrow> ts_type option" where
  "intersect_member a b =
     (case (a, b) of
        (None, y) \<Rightarrow> y
      | (Some x, None) \<Rightarrow> Some x
      | (Some x, Some y) \<Rightarrow>
          Some (if x = TNever \<or> y = TNever then TNever else TIntersection x y))"

text \<open>
  \<^verbatim>\<open>ChainedFromExtensions\<close>, lines 88-99, over the raw commands of the whole extension
  union (command names are unique, so the intersection of the per-unit mapped types is
  one mapped type).
\<close>

definition ChainedFromExtensions :: "interface \<Rightarrow> interface" where
  "ChainedFromExtensions RawCommands =
     (\<lambda>Command. intersect_member (ChainedCommandRunParameter Command)
        (map_option
          (\<lambda>member. if callable member
                     then TFunction (Parameters member) (TRef ''ChainedFromExtensions'')
                     else TNever)
          (MapToChainedCommand RawCommands Command)))"

section \<open>core/src/extension/extension-types.ts, lines 222-523: the helpers unit\<close>

record StringHandlerOptions =
  content :: string

text \<open>
  A registered string handler: either the helpers unit's own
  \<^verbatim>\<open>textToProsemirrorNode.bind(this)\<close>, which reads the store when it is called, or a free
  function of the options.
\<close>

datatype ('opts, 'frag) StringHandler =
    BoundTextToProsemirrorNode
  | FunctionHandler "'opts \<Rightarrow> 'frag"

text \<open>
  What the helpers unit reaches through \<^verbatim>\<open>this.store\<close>: the extension list, the editor
  state that \<^verbatim>\<open>getState()\<close> returns now, the string handlers, the two manager store keys
  \<^verbatim>\<open>active\<close> and \<^verbatim>\<open>helpers\<close> (\<open>None\<close> until set) and the \<^verbatim>\<open>helpers\<close> key of the
  extension store.  An active predicate is a closure that calls \<^verbatim>\<open>getState()\<close> whenever
  it runs: it takes the state of the store at the call as its first argument.
\<close>

record ('self, 'h, 'o, 't, 'st, 'attrs, 'z, 'frag) ExtensionStore =
  extensions :: "('self, 'h, 'o, 't) extension list"
  state :: 'st
  stringHandlers :: "string \<rightharpoonup> ('z StringHandlerOptions_scheme, 'frag) StringHandler"
  active :: "(string \<rightharpoonup> ('st \<Rightarrow> 'attrs option \<Rightarrow> bool)) option"
  helpers :: "(string \<rightharpoonup> 'h) option"
  extensionStore_helpers :: "(string \<rightharpoonup> 'h) option"

text \<open>
  Modelled from the spec: the store methods \<^verbatim>\<open>getState\<close>, \<^verbatim>\<open>setStringHandler\<close>,
  \<^verbatim>\<open>setStoreKey\<close> and \<^verbatim>\<open>setExtensionStore\<close> are not part of the excerpt; each reads or
  writes the one entry it names (a string handler registered under its content-type name,
  a key of the manager store, a key of the extension store).
\<close>

definition getState :: "('self, 'h, 'o, 't, 'st, 'attrs, 'z, 'frag) ExtensionStore \<Rightarrow> 'st" where
  "getState store = state store"

definition setStringHandler ::
  "string \<Rightarrow> ('z StringHandlerOptions_scheme, 'frag) StringHandler \<Rightarrow>
   ('self, 'h, 'o, 't, 'st, 'attrs, 'z, 'frag) ExtensionStore \<Rightarrow>
   ('self, 'h, 'o, 't, 'st, 'attrs, 'z, 'frag) ExtensionStore" where
  "setStringHandler key handler store =
     store\<lparr>stringHandlers := (stringHandlers store)(key \<mapsto> handler)\<rparr>"

definition setStoreKey_active ::
  "(string \<rightharpoonup> ('st \<Rightarrow> 'attrs option \<Rightarrow> bool)) \<Rightarrow>
   ('self, 'h, 'o, 't, 'st, 'attrs, 'z, 'frag) ExtensionStore \<Rightarrow>
   ('self, 'h, 'o, 't, 'st, 'attrs, 'z, 'frag) ExtensionStore" where
  "setStoreKey_active v store = store\<lparr>active := Some v\<rparr>"

definition setStoreKey_helpers ::
  "(string \<rightharpoonup> 'h) \<Rightarrow>
   ('self, 'h, 'o, 't, 'st, 'attrs, 'z, 'frag) ExtensionStore \<Rightarrow>
   ('self, 'h, 'o, 't, 'st, 'attrs, 'z, 'frag) ExtensionStore" where
  "setStoreKey_helpers v store = store\<lparr>helpers := Some v\<rparr>"

definition setExtensionStore_helpers ::
  "(string \<rightharpoonup> 'h) \<Rightarrow>
   ('self, 'h, 'o, 't, 'st, 'attrs, 'z, 'frag) ExtensionStore \<Rightarrow>
   ('self, 'h, 'o, 't, 'st, 'attrs, 'z, 'frag) ExtensionStore" where
  "setExtensionStore_helpers v store = store\<lparr>extensionStore_helpers := Some v\<rparr>"

text \<open>
  Modelled from the spec: \<^verbatim>\<open>isNodeExtension\<close> and \<^verbatim>\<open>isMarkExtension\<close> of
  \<^verbatim>\<open>../extension\<close> are not part of the excerpt; they test the discriminant of the closed
  variant Plain, Mark, Node.
\<close>

definition isNodeExtension :: "('self, 'h, 'o, 't) extension \<Rightarrow> bool" where
  "isNodeExtension e = (kind e = Node)"

definition isMarkExtension :: "('self, 'h, 'o, 't) extension \<Rightarrow> bool" where
  "isMarkExtension e = (kind e = Mark)"

text \<open>
  Modelled from the spec: \<^verbatim>\<open>throwIfNameNotUnique\<close> of \<^verbatim>\<open>../helpers\<close> is not part of the
  excerpt.  It is handed the name, the set of names seen so far and the error code, and
  nothing else: it fails with that code on a name already in the set, naming it, and
  records the name otherwise.
\<close>

definition throwIfNameNotUnique :: "string \<Rightarrow> string set \<Rightarrow> ErrorConstant \<Rightarrow> error + string set" where
  "throwIfNameNotUnique nm names code =
     (if nm \<in> names then Inl (RemirrorError code nm) else Inr (insert nm names))"

subsection \<open>onCreate and the text handler\<close>

text \<open>
  \<^verbatim>\<open>onCreate\<close>, lines 281-285.  \<^verbatim>\<open>htmlToProsemirrorNode\<close> belongs to
  \<^verbatim>\<open>@remirror/core-utils\<close> and is a parameter.
\<close>

definition onCreate ::
  "('z StringHandlerOptions_scheme \<Rightarrow> 'frag) \<Rightarrow>
   ('self, 'h, 'o, 't, 'st, 'attrs, 'z, 'frag) ExtensionStore \<Rightarrow>
   ('self, 'h, 'o, 't, 'st, 'attrs, 'z, 'frag) ExtensionStore" where
  "onCreate htmlToProsemirrorNode store =
     setStringHandler ''html'' (FunctionHandler htmlToProsemirrorNode)
       (setStringHandler ''text'' BoundTextToProsemirrorNode store)"

text \<open>
  \<^verbatim>\<open>textToProsemirrorNode\<close>, lines 392-395.  The \<^verbatim>\<open>html\<close> handler is looked up when the
  text handler runs.  Calling a missing handler is a \<open>TypeError\<close>.  Were the text handler
  itself registered under \<^verbatim>\<open>html\<close>, each call would wrap the content once more and call
  itself again, with nothing to stop it: the call stack runs out.
\<close>

definition textToProsemirrorNode ::
  "('self, 'h, 'o, 't, 'st, 'attrs, 'z, 'frag) ExtensionStore \<Rightarrow>
   'z StringHandlerOptions_scheme \<Rightarrow> error + 'frag" where
  "textToProsemirrorNode store options =
     (let content = ''<pre>'' @ content options @ ''</pre>''
      in case stringHandlers store ''html'' of
           None \<Rightarrow> Inl (TypeError ''html'')
         | Some (FunctionHandler html) \<Rightarrow> Inr (html (options\<lparr>content := content\<rparr>))
         | Some BoundTextToProsemirrorNode \<Rightarrow> Inl RangeError)"

text \<open>Calling \<^verbatim>\<open>store.stringHandlers[key](options)\<close>.\<close>

definition callStringHandler ::
  "('self, 'h, 'o, 't, 'st, 'attrs, 'z, 'frag) ExtensionStore \<Rightarrow> string \<Rightarrow>
   'z StringHandlerOptions_scheme \<Rightarrow> error + 'frag" where
  "callStringHandler store key options =
     (case stringHandlers store key of
        None \<Rightarrow> Inl (TypeError key)
      | Some (FunctionHandler f) \<Rightarrow> Inr (f options)
      | Some BoundTextToProsemirrorNode \<Rightarrow> textToProsemirrorNode store options)"

subsection \<open>onView\<close>

text \<open>
  Lines 310-312: every key of \<^verbatim>\<open>decoratedHelpers\<close> is written into the object that
  \<^verbatim>\<open>createHelpers\<close> returned, with the unit's property of that name bound to the unit.
  \<^verbatim>\<open>undefined.bind\<close> is a \<open>TypeError\<close>.
\<close>

fun bindDecoratedHelpers ::
  "('self, 'h, 'o, 't) extension \<Rightarrow> string list \<Rightarrow> (string, 'h) alist \<Rightarrow> error + (string, 'h) alist" where
  "bindDecoratedHelpers e [] extensionHelpers = Inr extensionHelpers"
| "bindDecoratedHelpers e (helperName # rest) extensionHelpers =
     (case methods e helperName of
        None \<Rightarrow> Inl (TypeError helperName)
      | Some m \<Rightarrow> bindDecoratedHelpers e rest (DAList.update helperName (m (self e)) extensionHelpers))"

text \<open>Lines 308-312: \<^verbatim>\<open>extension.createHelpers?.() ?? {}\<close>, then the decorated helpers.\<close>

definition extensionHelpers ::
  "('self, 'h, 'o, 't) extension \<Rightarrow> error + (string, 'h) alist" where
  "extensionHelpers e =
     bindDecoratedHelpers e
       (case decoratedHelpers e of None \<Rightarrow> [] | Some d \<Rightarrow> map fst (DAList.impl_of d))
       (case createHelpers e of None \<Rightarrow> DAList.empty | Some create \<Rightarrow> create (self e))"

text \<open>Lines 318-321: the entries of one unit, checked against the names seen so far.\<close>

fun registerHelpers ::
  "(string \<times> 'h) list \<Rightarrow> string set \<Rightarrow> (string \<rightharpoonup> 'h) \<Rightarrow> error + (string set \<times> (string \<rightharpoonup> 'h))" where
  "registerHelpers [] names hs = Inr (names, hs)"
| "registerHelpers ((nm, h) # rest) names hs =
     (case throwIfNameNotUnique nm names DUPLICATE_HELPER_NAMES of
        Inl err \<Rightarrow> Inl err
      | Inr names' \<Rightarrow> registerHelpers rest names' (hs(nm \<mapsto> h)))"

text \<open>
  Lines 295-322: the loop over \<^verbatim>\<open>this.store.extensions\<close>, threading the three locals
  \<^verbatim>\<open>helpers\<close>, \<^verbatim>\<open>active\<close> and \<^verbatim>\<open>names\<close>.  \<^verbatim>\<open>isNodeActive\<close> and \<^verbatim>\<open>isMarkActive\<close>
  belong to \<^verbatim>\<open>@remirror/core-utils\<close> and are parameters.
\<close>

fun onView_loop ::
  "('st \<Rightarrow> 't \<Rightarrow> 'attrs option \<Rightarrow> bool) \<Rightarrow> ('st \<Rightarrow> 't \<Rightarrow> bool) \<Rightarrow>
   ('self, 'h, 'o, 't) extension list \<Rightarrow>
   (string \<rightharpoonup> 'h) \<Rightarrow> (string \<rightharpoonup> ('st \<Rightarrow> 'attrs option \<Rightarrow> bool)) \<Rightarrow> string set \<Rightarrow>
   error + ((string \<rightharpoonup> 'h) \<times> (string \<rightharpoonup> ('st \<Rightarrow> 'attrs option \<Rightarrow> bool)) \<times> string set)" where
  "onView_loop isNodeActive isMarkActive [] hs act names = Inr (hs, act, names)"
| "onView_loop isNodeActive isMarkActive (e # rest) hs act names =
     (let act1 = (if isNodeExtension e
                  then act(name e \<mapsto> (\<lambda>st attrs. isNodeActive st (type e) attrs))
                  else act);
          act2 = (if isMarkExtension e
                  then act1(name e \<mapsto> (\<lambda>st attrs. isMarkActive st (type e)))
                  else act1)
      in case extensionHelpers e of
           Inl err \<Rightarrow> Inl err
         | Inr eh \<Rightarrow>
             if isEmptyObject (DAList.impl_of eh)
             then onView_loop isNodeActive isMarkActive rest hs act2 names
             else (case registerHelpers (DAList.impl_of eh) names hs of
                     Inl err \<Rightarrow> Inl err
                   | Inr (names', hs') \<Rightarrow>
                       onView_loop isNodeActive isMarkActive rest hs' act2 names'))"

text \<open>\<^verbatim>\<open>onView\<close>, lines 290-327: an exception leaves the store as it was.\<close>

definition onView ::
  "('st \<Rightarrow> 't \<Rightarrow> 'attrs option \<Rightarrow> bool) \<Rightarrow> ('st \<Rightarrow> 't \<Rightarrow> bool) \<Rightarrow>
   ('self, 'h, 'o, 't, 'st, 'attrs, 'z, 'frag) ExtensionStore \<Rightarrow>
   error + ('self, 'h, 'o, 't, 'st, 'attrs, 'z, 'frag) ExtensionStore" where
  "onView isNodeActive isMarkActive store =
     (case onView_loop isNodeActive isMarkActive (extensions store) Map.empty Map.empty {} of
        Inl err \<Rightarrow> Inl err
      | Inr (hs, act, names) \<Rightarrow>
          Inr (setExtensionStore_helpers hs
                (setStoreKey_helpers hs (setStoreKey_active act store))))"

text \<open>
  Calling \<^verbatim>\<open>store.active[key](attrs)\<close>: the closure reads \<^verbatim>\<open>getState()\<close> of the store as
  it is at the call.
\<close>

definition callActive ::
  "('self, 'h, 'o, 't, 'st, 'attrs, 'z, 'frag) ExtensionStore \<Rightarrow> string \<Rightarrow> 'attrs option \<Rightarrow>
   error + bool" where
  "callActive store key attrs =
     (case active store of
        None \<Rightarrow> Inl (TypeError ''active'')
      | Some act \<Rightarrow>
          (case act key of
             None \<Rightarrow> Inl (TypeError key)
           | Some predicate \<Rightarrow> Inr (predicate (getState store) attrs)))"

text \<open>
  Calling \<^verbatim>\<open>store.helpers[key]\<close>: reading the manager store's \<^verbatim>\<open>helpers\<close> before it
  is set, or a name it does not hold, is a \<open>TypeError\<close>.
\<close>

definition callHelper ::
  "('self, 'h, 'o, 't, 'st, 'attrs, 'z, 'frag) ExtensionStore \<Rightarrow> string \<Rightarrow> error + 'h" where
  "callHelper store key =
     (case helpers store of
        None \<Rightarrow> Inl (TypeError ''helpers'')
      | Some hs \<Rightarrow>
          (case hs key of
             None \<Rightarrow> Inl (TypeError key)
           | Some h \<Rightarrow> Inr h))"

text \<open>The helper names a unit contributes: the keys of its merged helper object.\<close>

definition helperNames :: "('self, 'h, 'o, 't) extension \<Rightarrow> string set" where
  "helperNames e =
     (case createHelpers e of None \<Rightarrow> {} | Some create \<Rightarrow> fst ` set (DAList.impl_of (create (self e))))
     \<union> (case decoratedHelpers e of None \<Rightarrow> {} | Some d \<Rightarrow> fst ` set (DAList.impl_of d))"

text \<open>Every decorated helper of the unit names one of its methods, as a decorator ensures.\<close>

definition decoratedAreMethods :: "('self, 'h, 'o, 't) extension \<Rightarrow> bool" where
  "decoratedAreMethods e =
     (case decoratedHelpers e of
        None \<Rightarrow> True
      | Some d \<Rightarrow> list_all (\<lambda>k. methods e k \<noteq> None) (map fst (DAList.impl_of d)))"

section \<open>Example units from the sources\<close>

text \<open>
  The example units are instances over concrete types: \<^verbatim>\<open>this\<close> is the unit's name, and a
  function value is the pair of its receiver and a label, so that a bound method shows
  which instance it is bound to.
\<close>

definition bound :: "string \<Rightarrow> string \<Rightarrow> string \<times> string" where
  "bound method this = (this, method)"

text \<open>
  \<^verbatim>\<open>UnderlineExtension\<close> (a mark unit without helpers).
\<close>

definition UnderlineExtension :: "(string, string \<times> string, string, string) extension" where
  "UnderlineExtension =
     \<lparr>name = ''underline'', kind = Mark, type = ''underline'', self = ''underline'',
      methods = [''createTags'' \<mapsto> bound ''createTags'',
                 ''createMarkSpec'' \<mapsto> bound ''createMarkSpec'',
                 ''createKeymap'' \<mapsto> bound ''createKeymap'',
                 ''createCommands'' \<mapsto> bound ''createCommands''],
      createHelpers = None, decoratedHelpers = None, decoratedCommands = None,
      decoratedKeybindings = None\<rparr>"

text \<open>
  The helpers unit itself: the class, then the six \<^verbatim>\<open>@helper()\<close> decorators in the
  order of the class body.
\<close>

definition HelpersExtension_class :: "(string, string \<times> string, string, string) extension" where
  "HelpersExtension_class =
     \<lparr>name = ''helpers'', kind = Plain, type = [], self = ''helpers'',
      methods = [''onCreate'' \<mapsto> bound ''onCreate'',
                 ''onView'' \<mapsto> bound ''onView'',
                 ''isSelectionEmpty'' \<mapsto> bound ''isSelectionEmpty'',
                 ''getStateJSON'' \<mapsto> bound ''getStateJSON'',
                 ''getJSON'' \<mapsto> bound ''getJSON'',
                 ''getRemirrorJSON'' \<mapsto> bound ''getRemirrorJSON'',
                 ''getText'' \<mapsto> bound ''getText'',
                 ''getHtml'' \<mapsto> bound ''getHtml'',
                 ''textToProsemirrorNode'' \<mapsto> bound ''textToProsemirrorNode''],
      createHelpers = None, decoratedHelpers = None, decoratedCommands = None,
      decoratedKeybindings = None\<rparr>"

definition HelpersExtension :: "(string, string \<times> string, string, string) extension" where
  "HelpersExtension =
     helper None
       (helper None
         (helper None
           (helper None
             (helper None
               (helper None HelpersExtension_class ''isSelectionEmpty'' ())
               ''getStateJSON'' ())
             ''getJSON'' ())
           ''getRemirrorJSON'' ())
         ''getText'' ())
       ''getHtml'' ()"

text \<open>
  The unit of the doc comment of \<^verbatim>\<open>createHelpers\<close>: a plain unit whose
  \<^verbatim>\<open>createHelpers\<close> returns the one helper \<^verbatim>\<open>checkBeautyLevel\<close>; and the same unit
  with a method of that name marked by \<^verbatim>\<open>@helper()\<close> as well.
\<close>

definition MyBeautifulExtension :: "(string, string \<times> string, string, string) extension" where
  "MyBeautifulExtension =
     \<lparr>name = ''beautiful'', kind = Plain, type = [], self = ''beautiful'',
      methods = [''createHelpers'' \<mapsto> bound ''createHelpers''],
      createHelpers = Some (\<lambda>this. DAList.update ''checkBeautyLevel'' (this, ''createHelpers().checkBeautyLevel'') DAList.empty),
      decoratedHelpers = None, decoratedCommands = None, decoratedKeybindings = None\<rparr>"

definition BeautifulWithDecoratedHelper :: "(string, string \<times> string, string, string) extension" where
  "BeautifulWithDecoratedHelper =
     helper None
       (MyBeautifulExtension\<lparr>methods := (methods MyBeautifulExtension)
          (''checkBeautyLevel'' \<mapsto> bound ''checkBeautyLevel'')\<rparr>)
       ''checkBeautyLevel'' ()"





text \<open>
  A store right after construction: nothing registered, no key set, the editor state a
  list of the mark types active under the selection.
\<close>

definition manager_store ::
  "(string, string \<times> string, string, string) extension list \<Rightarrow>
   (string, string \<times> string, string, string, string list, unit, unit, string) ExtensionStore" where
  "manager_store es =
     \<lparr>extensions = es, state = [], stringHandlers = Map.empty, active = None, helpers = None,
      extensionStore_helpers = None\<rparr>"

section \<open>Properties of the helper object of one unit\<close>

lemma impl_of_update_keys:
  "fst ` set (DAList.impl_of (DAList.update k v al)) = insert k (fst ` set (DAList.impl_of al))"
  by (simp add: DAList.update.rep_eq AList.dom_update)

lemma lookup_impl_of: "DAList.lookup al k = map_of (DAList.impl_of al) k"
  by (simp add: DAList.lookup.rep_eq)

lemma bindDecoratedHelpers_Inr:
  "bindDecoratedHelpers e ks acc = Inr r \<Longrightarrow>
     fst ` set (DAList.impl_of r) = fst ` set (DAList.impl_of acc) \<union> set ks
     \<and> (\<forall>k. DAList.lookup r k =
           (if k \<in> set ks then map_option (\<lambda>m. m (self e)) (methods e k) else DAList.lookup acc k))
     \<and> (\<forall>k \<in> set ks. methods e k \<noteq> None)"
proof (induction ks arbitrary: acc)
  case Nil
  then show ?case by simp
next
  case (Cons k ks)
  from Cons.prems obtain m where m: "methods e k = Some m"
    and rest: "bindDecoratedHelpers e ks (DAList.update k (m (self e)) acc) = Inr r"
    by (auto split: option.splits)
  note ih = Cons.IH [OF rest]
  show ?case
  proof (intro conjI allI ballI)
    show "fst ` set (DAList.impl_of r) = fst ` set (DAList.impl_of acc) \<union> set (k # ks)"
      using ih by (auto simp: impl_of_update_keys)
  next
    fix k'
    show "DAList.lookup r k' =
        (if k' \<in> set (k # ks) then map_option (\<lambda>m. m (self e)) (methods e k') else DAList.lookup acc k')"
      using ih m by (cases "k' = k") (auto simp: DAList.lookup_update)
  next
    fix k' assume "k' \<in> set (k # ks)"
    then show "methods e k' \<noteq> None" using ih m by auto
  qed
qed

lemma bindDecoratedHelpers_Inl:
  "bindDecoratedHelpers e ks acc = Inl err \<Longrightarrow> \<exists>k \<in> set ks. err = TypeError k \<and> methods e k = None"
  by (induction ks arbitrary: acc) (auto split: option.splits)

lemma extensionHelpers_Inr:
  assumes "extensionHelpers e = Inr r"
  shows "fst ` set (DAList.impl_of r) = helperNames e"
    and "decoratedAreMethods e"
proof -
  let ?ks = "case decoratedHelpers e of None \<Rightarrow> [] | Some d \<Rightarrow> map fst (DAList.impl_of d)"
  let ?acc = "case createHelpers e of None \<Rightarrow> DAList.empty | Some create \<Rightarrow> create (self e)"
  have b: "bindDecoratedHelpers e ?ks ?acc = Inr r"
    using assms by (simp add: extensionHelpers_def)
  note facts = bindDecoratedHelpers_Inr [OF b]
  show "fst ` set (DAList.impl_of r) = helperNames e"
    using facts by (auto simp: helperNames_def DAList.empty.rep_eq split: option.splits)
  show "decoratedAreMethods e"
    using facts by (auto simp: decoratedAreMethods_def list_all_iff split: option.splits)
qed

lemma extensionHelpers_Inl:
  "extensionHelpers e = Inl err \<Longrightarrow> (\<exists>k. err = TypeError k) \<and> \<not> decoratedAreMethods e"
proof -
  assume a: "extensionHelpers e = Inl err"
  let ?ks = "case decoratedHelpers e of None \<Rightarrow> [] | Some d \<Rightarrow> map fst (DAList.impl_of d)"
  from a obtain k where k: "k \<in> set ?ks" "err = TypeError k" "methods e k = None"
    unfolding extensionHelpers_def by (blast dest: bindDecoratedHelpers_Inl)
  from k(1) obtain d where d: "decoratedHelpers e = Some d" "k \<in> set (map fst (DAList.impl_of d))"
    by (cases "decoratedHelpers e") auto
  have "\<not> decoratedAreMethods e"
    using d k(3) by (auto simp: decoratedAreMethods_def list_all_iff)
  with k(2) show ?thesis by blast
qed

lemma extensionHelpers_total:
  "decoratedAreMethods e \<Longrightarrow> \<exists>eh. extensionHelpers e = Inr eh"
  by (cases "extensionHelpers e") (auto dest: extensionHelpers_Inl)

lemma extensionHelpers_decorated:
  assumes "extensionHelpers e = Inr r" and "decoratedHelpers e = Some d"
    and "k \<in> fst ` set (DAList.impl_of d)"
  shows "\<exists>m. methods e k = Some m \<and> DAList.lookup r k = Some (m (self e))"
proof -
  let ?acc = "case createHelpers e of None \<Rightarrow> DAList.empty | Some create \<Rightarrow> create (self e)"
  have b: "bindDecoratedHelpers e (map fst (DAList.impl_of d)) ?acc = Inr r"
    using assms by (simp add: extensionHelpers_def)
  from bindDecoratedHelpers_Inr [OF b] assms(3) show ?thesis by auto
qed

section \<open>Properties of the registration of one unit\<close>

lemma registerHelpers_Inr:
  "registerHelpers xs ns hs = Inr (ns', hs') \<Longrightarrow>
     ns' = ns \<union> fst ` set xs \<and> fst ` set xs \<inter> ns = {} \<and> distinct (map fst xs)
     \<and> (\<forall>k. hs' k = (case map_of xs k of None \<Rightarrow> hs k | Some v \<Rightarrow> Some v))"
proof (induction xs arbitrary: ns hs)
  case Nil
  then show ?case by simp
next
  case (Cons x xs)
  obtain k v where x: "x = (k, v)" by (cases x)
  from Cons.prems x have fresh: "k \<notin> ns"
    and rest: "registerHelpers xs (insert k ns) (hs(k \<mapsto> v)) = Inr (ns', hs')"
    by (auto simp: throwIfNameNotUnique_def split: if_splits)
  note ih = Cons.IH [OF rest]
  have knot: "k \<notin> fst ` set xs" using ih by auto
  then have mk: "map_of xs k = None" by (simp add: map_of_eq_None_iff)
  show ?case
  proof (intro conjI allI)
    show "ns' = ns \<union> fst ` set (x # xs)" using ih x by auto
    show "fst ` set (x # xs) \<inter> ns = {}" using ih x fresh by auto
    show "distinct (map fst (x # xs))" using ih x knot by simp
    fix k'
    show "hs' k' = (case map_of (x # xs) k' of None \<Rightarrow> hs k' | Some v \<Rightarrow> Some v)"
      using ih x mk by (cases "k' = k") (auto split: option.splits)
  qed
qed

lemma registerHelpers_Inl:
  "registerHelpers xs ns hs = Inl err \<Longrightarrow> distinct (map fst xs) \<Longrightarrow>
     \<exists>k. err = RemirrorError DUPLICATE_HELPER_NAMES k \<and> k \<in> fst ` set xs \<and> k \<in> ns"
proof (induction xs arbitrary: ns hs)
  case Nil
  then show ?case by simp
next
  case (Cons x xs)
  obtain k v where x: "x = (k, v)" by (cases x)
  show ?case
  proof (cases "k \<in> ns")
    case True
    with Cons.prems x show ?thesis by (auto simp: throwIfNameNotUnique_def)
  next
    case False
    with Cons.prems x have rest: "registerHelpers xs (insert k ns) (hs(k \<mapsto> v)) = Inl err"
      by (simp add: throwIfNameNotUnique_def)
    from Cons.prems have d: "distinct (map fst xs)" by simp
    from Cons.IH [OF rest d] obtain k' where
      k': "err = RemirrorError DUPLICATE_HELPER_NAMES k'" "k' \<in> fst ` set xs" "k' \<in> insert k ns"
      by blast
    from Cons.prems(2) x k'(2) have "k' \<noteq> k" by auto
    with k' show ?thesis by auto
  qed
qed

section \<open>Properties of the loop of onView\<close>

text \<open>
  One iteration: an empty helper object registers nothing, so the \<^verbatim>\<open>continue\<close> branch
  and the registration branch are one case.
\<close>

lemma onView_loop_Cons:
  "onView_loop N M (e # rest) hs act ns =
     (case extensionHelpers e of
        Inl err \<Rightarrow> Inl err
      | Inr eh \<Rightarrow>
          (case registerHelpers (DAList.impl_of eh) ns hs of
             Inl err \<Rightarrow> Inl err
           | Inr (ns1, hs1) \<Rightarrow>
               onView_loop N M rest hs1
                 (if kind e = Mark then act(name e \<mapsto> (\<lambda>st attrs. M st (type e)))
                  else if kind e = Node then act(name e \<mapsto> (\<lambda>st attrs. N st (type e) attrs))
                  else act)
                 ns1))"
  by (auto simp: Let_def isEmptyObject_def isNodeExtension_def isMarkExtension_def
      split: sum.splits)

declare onView_loop.simps(2) [simp del]

lemma onView_loop_ConsE:
  assumes "onView_loop N M (e # rest) hs act ns = Inr res"
  obtains eh hs1 where "extensionHelpers e = Inr eh"
    and "registerHelpers (DAList.impl_of eh) ns hs = Inr (ns \<union> helperNames e, hs1)"
    and "helperNames e \<inter> ns = {}"
    and "\<And>k. hs1 k = (case DAList.lookup eh k of None \<Rightarrow> hs k | Some v \<Rightarrow> Some v)"
    and "onView_loop N M rest hs1
           (if kind e = Mark then act(name e \<mapsto> (\<lambda>st attrs. M st (type e)))
            else if kind e = Node then act(name e \<mapsto> (\<lambda>st attrs. N st (type e) attrs))
            else act)
           (ns \<union> helperNames e) = Inr res"
proof -
  from assms obtain eh where eh: "extensionHelpers e = Inr eh"
    by (auto simp: onView_loop_Cons split: sum.splits)
  with assms obtain ns1 hs1 where reg: "registerHelpers (DAList.impl_of eh) ns hs = Inr (ns1, hs1)"
    by (auto simp: onView_loop_Cons split: sum.splits)
  note r = registerHelpers_Inr [OF reg]
  have names: "fst ` set (DAList.impl_of eh) = helperNames e"
    by (rule extensionHelpers_Inr(1) [OF eh])
  have ns1: "ns1 = ns \<union> helperNames e" using r names by simp
  have rest: "onView_loop N M rest hs1
           (if kind e = Mark then act(name e \<mapsto> (\<lambda>st attrs. M st (type e)))
            else if kind e = Node then act(name e \<mapsto> (\<lambda>st attrs. N st (type e) attrs))
            else act)
           (ns \<union> helperNames e) = Inr res"
    using assms eh reg ns1 by (simp add: onView_loop_Cons)
  show ?thesis
  proof (rule that [OF eh _ _ _ rest])
    show "registerHelpers (DAList.impl_of eh) ns hs = Inr (ns \<union> helperNames e, hs1)"
      using reg ns1 by simp
    show "helperNames e \<inter> ns = {}" using r names by simp
    fix k show "hs1 k = (case DAList.lookup eh k of None \<Rightarrow> hs k | Some v \<Rightarrow> Some v)"
      using r by (simp add: lookup_impl_of)
  qed
qed

lemma onView_loop_names:
  "onView_loop N M es hs act ns = Inr (hs', act', ns') \<Longrightarrow>
     ns' = ns \<union> (\<Union>e\<in>set es. helperNames e)
     \<and> (\<forall>e\<in>set es. helperNames e \<inter> ns = {} \<and> decoratedAreMethods e)"
proof (induction es arbitrary: hs act ns)
  case Nil
  then show ?case by simp
next
  case (Cons e rest)
  from Cons.prems show ?case
  proof (rule onView_loop_ConsE)
    fix eh hs1
    assume eh: "extensionHelpers e = Inr eh"
      and disj: "helperNames e \<inter> ns = {}"
      and rest: "onView_loop N M rest hs1
           (if kind e = Mark then act(name e \<mapsto> (\<lambda>st attrs. M st (type e)))
            else if kind e = Node then act(name e \<mapsto> (\<lambda>st attrs. N st (type e) attrs))
            else act)
           (ns \<union> helperNames e) = Inr (hs', act', ns')"
    note ih = Cons.IH [OF rest]
    have "decoratedAreMethods e" by (rule extensionHelpers_Inr(2) [OF eh])
    with ih disj show ?thesis by auto
  qed
qed

lemma onView_loop_disjoint:
  "onView_loop N M es hs act ns = Inr (hs', act', ns') \<Longrightarrow> i < j \<Longrightarrow> j < length es \<Longrightarrow>
     helperNames (es ! i) \<inter> helperNames (es ! j) = {}"
proof (induction es arbitrary: hs act ns i j)
  case Nil
  then show ?case by simp
next
  case (Cons e rest)
  from Cons.prems(1) show ?case
  proof (rule onView_loop_ConsE)
    fix eh hs1
    assume rest: "onView_loop N M rest hs1
           (if kind e = Mark then act(name e \<mapsto> (\<lambda>st attrs. M st (type e)))
            else if kind e = Node then act(name e \<mapsto> (\<lambda>st attrs. N st (type e) attrs))
            else act)
           (ns \<union> helperNames e) = Inr (hs', act', ns')"
    from Cons.prems obtain j' where j': "j = Suc j'" "j' < length rest" by (cases j) auto
    show ?thesis
    proof (cases i)
      case 0
      have "rest ! j' \<in> set rest" using j' by simp
      with onView_loop_names [OF rest] have "helperNames (rest ! j') \<inter> (ns \<union> helperNames e) = {}"
        by blast
      with 0 j' show ?thesis by auto
    next
      case (Suc i')
      with Cons.prems j' have "i' < j'" by simp
      from Cons.IH [OF rest this j'(2)] Suc j' show ?thesis by simp
    qed
  qed
qed

lemma onView_loop_helpers:
  "onView_loop N M es hs act ns = Inr (hs', act', ns') \<Longrightarrow>
     (\<forall>k\<in>ns. hs' k = hs k)
     \<and> (\<forall>e\<in>set es. \<forall>eh k v. extensionHelpers e = Inr eh \<longrightarrow> DAList.lookup eh k = Some v \<longrightarrow> hs' k = Some v)"
proof (induction es arbitrary: hs act ns)
  case Nil
  then show ?case by simp
next
  case (Cons e rest)
  from Cons.prems show ?case
  proof (rule onView_loop_ConsE)
    fix eh hs1
    assume eh: "extensionHelpers e = Inr eh"
      and disj: "helperNames e \<inter> ns = {}"
      and hs1: "\<And>k. hs1 k = (case DAList.lookup eh k of None \<Rightarrow> hs k | Some v \<Rightarrow> Some v)"
      and rest: "onView_loop N M rest hs1
           (if kind e = Mark then act(name e \<mapsto> (\<lambda>st attrs. M st (type e)))
            else if kind e = Node then act(name e \<mapsto> (\<lambda>st attrs. N st (type e) attrs))
            else act)
           (ns \<union> helperNames e) = Inr (hs', act', ns')"
    note ih = Cons.IH [OF rest]
    have names: "fst ` set (DAList.impl_of eh) = helperNames e"
      by (rule extensionHelpers_Inr(1) [OF eh])
    have in_names: "k \<in> helperNames e" if "DAList.lookup eh k = Some v" for k v
    proof -
      from that have "(k, v) \<in> set (DAList.impl_of eh)"
        unfolding lookup_impl_of by (rule map_of_SomeD)
      then have "fst (k, v) \<in> fst ` set (DAList.impl_of eh)" by (rule imageI)
      with names show ?thesis by simp
    qed
    have out_names: "DAList.lookup eh k = None" if "k \<notin> helperNames e" for k
      using that in_names by (cases "DAList.lookup eh k") auto
    show ?thesis
    proof (intro conjI ballI allI impI)
      fix k assume "k \<in> ns"
      then have "k \<notin> helperNames e" using disj by auto
      then have "hs1 k = hs k" using hs1 [of k] out_names by simp
      moreover have "hs' k = hs1 k" using ih \<open>k \<in> ns\<close> by simp
      ultimately show "hs' k = hs k" by simp
    next
      fix e' eh' k v
      assume e': "e' \<in> set (e # rest)" and eh': "extensionHelpers e' = Inr eh'"
        and l: "DAList.lookup eh' k = Some v"
      show "hs' k = Some v"
      proof (cases "e' \<in> set rest")
        case True
        with ih eh' l show ?thesis by blast
      next
        case False
        with e' have "e' = e" by simp
        with eh eh' have "eh' = eh" by simp
        with l have "k \<in> helperNames e" "hs1 k = Some v" using in_names hs1 [of k] by auto
        with ih show ?thesis by simp
      qed
    qed
  qed
qed

lemma onView_loop_Inl:
  "onView_loop N M es hs act ns = Inl err \<Longrightarrow>
     (\<exists>k. err = TypeError k \<and> (\<exists>e\<in>set es. \<not> decoratedAreMethods e))
     \<or> (\<exists>k j. err = RemirrorError DUPLICATE_HELPER_NAMES k \<and> j < length es
            \<and> k \<in> helperNames (es ! j) \<and> (k \<in> ns \<or> (\<exists>i<j. k \<in> helperNames (es ! i))))"
proof (induction es arbitrary: hs act ns)
  case Nil
  then show ?case by simp
next
  case (Cons e rest)
  show ?case
  proof (cases "extensionHelpers e")
    case (Inl err')
    with Cons.prems have "err' = err" by (simp add: onView_loop_Cons)
    with extensionHelpers_Inl [OF Inl] show ?thesis by auto
  next
    case (Inr eh)
    have names: "fst ` set (DAList.impl_of eh) = helperNames e"
      by (rule extensionHelpers_Inr(1) [OF Inr])
    show ?thesis
    proof (cases "registerHelpers (DAList.impl_of eh) ns hs")
      case (Inl err')
      with Cons.prems Inr have "err' = err" by (simp add: onView_loop_Cons)
      with registerHelpers_Inl [OF Inl] names obtain k where
        "err = RemirrorError DUPLICATE_HELPER_NAMES k" "k \<in> helperNames e" "k \<in> ns"
        by auto
      then have "err = RemirrorError DUPLICATE_HELPER_NAMES k \<and> 0 < length (e # rest)
            \<and> k \<in> helperNames ((e # rest) ! 0) \<and> k \<in> ns" by simp
      then show ?thesis by blast
    next
      case (Inr res)
      obtain ns1 hs1 where res: "res = (ns1, hs1)" by (cases res)
      from registerHelpers_Inr [OF Inr [unfolded res]] names
      have ns1: "ns1 = ns \<union> helperNames e" by simp
      from Cons.prems \<open>extensionHelpers e = Inr eh\<close> Inr res
      have rest: "onView_loop N M rest hs1
           (if kind e = Mark then act(name e \<mapsto> (\<lambda>st attrs. M st (type e)))
            else if kind e = Node then act(name e \<mapsto> (\<lambda>st attrs. N st (type e) attrs))
            else act) ns1 = Inl err"
        by (simp add: onView_loop_Cons)
      from Cons.IH [OF rest] consider
          (type) k where "err = TypeError k" "\<exists>e\<in>set rest. \<not> decoratedAreMethods e"
        | (dup) k j where "err = RemirrorError DUPLICATE_HELPER_NAMES k" "j < length rest"
            "k \<in> helperNames (rest ! j)" "k \<in> ns1 \<or> (\<exists>i<j. k \<in> helperNames (rest ! i))"
        by blast
      then show ?thesis
      proof cases
        case type
        then show ?thesis by auto
      next
        case (dup k j)
        note e = dup(1) and j = dup(2) and kj = dup(3) and prev = dup(4)
        have "k \<in> ns \<or> (\<exists>i<Suc j. k \<in> helperNames ((e # rest) ! i))"
        proof -
          from prev consider "k \<in> ns" | "k \<in> helperNames e" | i where "i < j" "k \<in> helperNames (rest ! i)"
            using ns1 by auto
          then show ?thesis
          proof cases
            case 1 then show ?thesis by simp
          next
            case 2
            then have "0 < Suc j \<and> k \<in> helperNames ((e # rest) ! 0)" by simp
            then show ?thesis by blast
          next
            case 3
            then have "Suc i < Suc j \<and> k \<in> helperNames ((e # rest) ! Suc i)" by simp
            then show ?thesis by blast
          qed
        qed
        with e j kj have "err = RemirrorError DUPLICATE_HELPER_NAMES k \<and> Suc j < length (e # rest)
            \<and> k \<in> helperNames ((e # rest) ! Suc j)
            \<and> (k \<in> ns \<or> (\<exists>i<Suc j. k \<in> helperNames ((e # rest) ! i)))" by simp
        then show ?thesis by blast
      qed
    qed
  qed
qed

lemma onView_loop_succeeds:
  "\<forall>e\<in>set es. decoratedAreMethods e \<and> helperNames e \<inter> ns = {} \<Longrightarrow>
   \<forall>i j. i < j \<longrightarrow> j < length es \<longrightarrow> helperNames (es ! i) \<inter> helperNames (es ! j) = {} \<Longrightarrow>
   \<exists>res. onView_loop N M es hs act ns = Inr res"
proof (cases "onView_loop N M es hs act ns")
  case (Inl err)
  assume wf: "\<forall>e\<in>set es. decoratedAreMethods e \<and> helperNames e \<inter> ns = {}"
    and dj: "\<forall>i j. i < j \<longrightarrow> j < length es \<longrightarrow> helperNames (es ! i) \<inter> helperNames (es ! j) = {}"
  from onView_loop_Inl [OF Inl] consider
      (type) "\<exists>e\<in>set es. \<not> decoratedAreMethods e"
    | (dup) k j where "j < length es" "k \<in> helperNames (es ! j)"
        "k \<in> ns \<or> (\<exists>i<j. k \<in> helperNames (es ! i))"
    by blast
  then show ?thesis
  proof cases
    case type
    with wf show ?thesis by blast
  next
    case (dup k j)
    note j = dup(1) and kj = dup(2) and prev = dup(3)
    from j have "es ! j \<in> set es" by simp
    with wf kj have "k \<notin> ns" by blast
    with prev obtain i where "i < j" "k \<in> helperNames (es ! i)" by blast
    with dj j kj show ?thesis by blast
  qed
next
  case (Inr res)
  then show ?thesis by blast
qed

lemma onView_loop_active_other:
  "onView_loop N M es hs act ns = Inr (hs', act', ns') \<Longrightarrow>
   \<forall>e\<in>set es. name e = k \<longrightarrow> kind e = Plain \<Longrightarrow> act' k = act k"
proof (induction es arbitrary: hs act ns)
  case Nil
  then show ?case by simp
next
  case (Cons e rest)
  from Cons.prems(1) show ?case
  proof (rule onView_loop_ConsE)
    fix eh hs1
    assume rest: "onView_loop N M rest hs1
           (if kind e = Mark then act(name e \<mapsto> (\<lambda>st attrs. M st (type e)))
            else if kind e = Node then act(name e \<mapsto> (\<lambda>st attrs. N st (type e) attrs))
            else act)
           (ns \<union> helperNames e) = Inr (hs', act', ns')"
    from Cons.prems(2) have r: "\<forall>e\<in>set rest. name e = k \<longrightarrow> kind e = Plain" by simp
    from Cons.prems(2) have "name e = k \<longrightarrow> kind e = Plain" by simp
    with Cons.IH [OF rest r] show ?thesis by auto
  qed
qed

lemma onView_loop_active:
  "onView_loop N M es hs act ns = Inr (hs', act', ns') \<Longrightarrow> distinct (map name es) \<Longrightarrow>
   e \<in> set es \<Longrightarrow>
   act' (name e) =
     (case kind e of
        Plain \<Rightarrow> act (name e)
      | Mark \<Rightarrow> Some (\<lambda>st attrs. M st (type e))
      | Node \<Rightarrow> Some (\<lambda>st attrs. N st (type e) attrs))"
proof (induction es arbitrary: hs act ns)
  case Nil
  then show ?case by simp
next
  case (Cons x rest)
  from Cons.prems(1) show ?case
  proof (rule onView_loop_ConsE)
    fix eh hs1
    assume rest: "onView_loop N M rest hs1
           (if kind x = Mark then act(name x \<mapsto> (\<lambda>st attrs. M st (type x)))
            else if kind x = Node then act(name x \<mapsto> (\<lambda>st attrs. N st (type x) attrs))
            else act)
           (ns \<union> helperNames x) = Inr (hs', act', ns')"
    from Cons.prems(2) have d: "distinct (map name rest)" and nx: "name x \<notin> name ` set rest"
      by auto
    show ?thesis
    proof (cases "e \<in> set rest")
      case True
      then have "name e \<in> name ` set rest" by (rule imageI)
      with nx have "name e \<noteq> name x" by auto
      with Cons.IH [OF rest d True] show ?thesis by (cases "kind e") auto
    next
      case False
      with Cons.prems(3) have ex: "e = x" by simp
      have "\<forall>e'\<in>set rest. name e' = name x \<longrightarrow> kind e' = Plain"
      proof (intro ballI impI)
        fix e' assume "e' \<in> set rest" and eq: "name e' = name x"
        then have "name e' \<in> name ` set rest" by (intro imageI)
        then have "name x \<in> name ` set rest" unfolding eq .
        with nx show "kind e' = Plain" by contradiction
      qed
      from onView_loop_active_other [OF rest this] ex show ?thesis
        by (cases "kind x") auto
    qed
  qed
qed

lemma onView_loop_helpers_dom:
  "onView_loop N M es hs act ns = Inr (hs', act', ns') \<Longrightarrow>
     dom hs' = dom hs \<union> (\<Union>e\<in>set es. helperNames e)"
proof (induction es arbitrary: hs act ns)
  case Nil
  then show ?case by simp
next
  case (Cons e rest)
  from Cons.prems show ?case
  proof (rule onView_loop_ConsE)
    fix eh hs1
    assume eh: "extensionHelpers e = Inr eh"
      and hs1: "\<And>k. hs1 k = (case DAList.lookup eh k of None \<Rightarrow> hs k | Some v \<Rightarrow> Some v)"
      and rest: "onView_loop N M rest hs1
           (if kind e = Mark then act(name e \<mapsto> (\<lambda>st attrs. M st (type e)))
            else if kind e = Node then act(name e \<mapsto> (\<lambda>st attrs. N st (type e) attrs))
            else act)
           (ns \<union> helperNames e) = Inr (hs', act', ns')"
    have names: "fst ` set (DAList.impl_of eh) = helperNames e"
      by (rule extensionHelpers_Inr(1) [OF eh])
    have "dom (DAList.lookup eh) = helperNames e"
      using names by (simp add: DAList.lookup.rep_eq dom_map_of_conv_image_fst)
    moreover have "dom hs1 = dom hs \<union> dom (DAList.lookup eh)"
      using hs1 by (auto simp: dom_def split: option.splits)
    ultimately have "dom hs1 = dom hs \<union> helperNames e" by simp
    with Cons.IH [OF rest] show ?thesis by auto
  qed
qed

lemma onView_loop_active_dom:
  "onView_loop N M es hs act ns = Inr (hs', act', ns') \<Longrightarrow>
     dom act' = dom act \<union> name ` {e \<in> set es. kind e \<noteq> Plain}"
proof (induction es arbitrary: hs act ns)
  case Nil
  then show ?case by simp
next
  case (Cons e rest)
  from Cons.prems show ?case
  proof (rule onView_loop_ConsE)
    fix eh hs1
    let ?act2 = "if kind e = Mark then act(name e \<mapsto> (\<lambda>st attrs. M st (type e)))
            else if kind e = Node then act(name e \<mapsto> (\<lambda>st attrs. N st (type e) attrs))
            else act"
    assume rest: "onView_loop N M rest hs1 ?act2 (ns \<union> helperNames e) = Inr (hs', act', ns')"
    have a2: "dom ?act2 = dom act \<union> name ` {x \<in> {e}. kind x \<noteq> Plain}"
      by (cases "kind e") auto
    have split: "{x \<in> set (e # rest). kind x \<noteq> Plain}
        = {x \<in> {e}. kind x \<noteq> Plain} \<union> {x \<in> set rest. kind x \<noteq> Plain}"
      by auto
    from Cons.IH [OF rest] have "dom act' = dom ?act2 \<union> name ` {x \<in> set rest. kind x \<noteq> Plain}" .
    then show ?thesis unfolding a2 split image_Un by (simp add: Un_assoc)
  qed
qed

lemma onView_Inr:
  assumes "onView N M store = Inr store'"
  obtains hs act ns where
    "onView_loop N M (extensions store) Map.empty Map.empty {} = Inr (hs, act, ns)"
    and "active store' = Some act" and "helpers store' = Some hs"
    and "extensionStore_helpers store' = Some hs"
proof -
  from assms obtain hs act ns where
    l: "onView_loop N M (extensions store) Map.empty Map.empty {} = Inr (hs, act, ns)"
    by (auto simp: onView_def split: sum.splits)
  with assms have "store' = setExtensionStore_helpers hs
                (setStoreKey_helpers hs (setStoreKey_active act store))"
    by (simp add: onView_def)
  then have "active store' = Some act" "helpers store' = Some hs"
    "extensionStore_helpers store' = Some hs"
    by (simp_all add: setStoreKey_active_def setStoreKey_helpers_def setExtensionStore_helpers_def)
  with l show ?thesis by (rule that)
qed

lemma onView_Inl:
  "onView N M store = Inl err \<Longrightarrow>
     onView_loop N M (extensions store) Map.empty Map.empty {} = Inl err"
  by (auto simp: onView_def split: sum.splits)

section \<open>Evaluation on concrete stores\<close>

lemmas eval_defs = onView_def onView_loop_Cons extensionHelpers_def throwIfNameNotUnique_def
  DAList.update.rep_eq DAList.empty.rep_eq DAList.lookup.rep_eq helperNames_def decoratedAreMethods_def
  setStoreKey_active_def setStoreKey_helpers_def setExtensionStore_helpers_def
  manager_store_def UnderlineExtension_def HelpersExtension_def HelpersExtension_class_def
  MyBeautifulExtension_def helper_def assign_decorated_def bound_def callActive_def getState_def
  decorated_entry_def


lemma freeze_after_return_rejects_writes:
  "freeze_after_return target = Inr p \<Longrightarrow> set_property p prop v = Inl (RemirrorError MUTATION prop)"
  by (auto simp: freeze_after_return_def)

section \<open>The claims\<close>

text \<open>
  C1, as stated: when two distinct units contribute a helper of the same name, the failure
  of \<^verbatim>\<open>onView\<close> identifies both contributing units.  It does not: two extension lists
  with the same helper names and pairwise different unit names fail with the same error,
  which carries the helper name only.
\<close>

theorem duplicate_helper_error_counterexample:
  "onView (\<lambda>st t a. False) (\<lambda>st t. t \<in> set st)
     (manager_store [MyBeautifulExtension, MyBeautifulExtension\<lparr>name := ''gorgeous''\<rparr>])
     = Inl (RemirrorError DUPLICATE_HELPER_NAMES ''checkBeautyLevel'')
   \<and> onView (\<lambda>st t a. False) (\<lambda>st t. t \<in> set st)
     (manager_store [MyBeautifulExtension\<lparr>name := ''pretty''\<rparr>, MyBeautifulExtension\<lparr>name := ''lovely''\<rparr>])
     = Inl (RemirrorError DUPLICATE_HELPER_NAMES ''checkBeautyLevel'')
   \<and> map name [MyBeautifulExtension, MyBeautifulExtension\<lparr>name := ''gorgeous''\<rparr>]
     = [''beautiful'', ''gorgeous'']
   \<and> map name [MyBeautifulExtension\<lparr>name := ''pretty''\<rparr>, MyBeautifulExtension\<lparr>name := ''lovely''\<rparr>]
     = [''pretty'', ''lovely'']"
  by (simp add: eval_defs Let_def)

text \<open>
  C1, amended: for every extension list whose decorated helpers are methods of their units
  and in which two units at different positions contribute a helper of the same name,
  \<^verbatim>\<open>onView\<close> fails with the \<open>DUPLICATE_HELPER_NAMES\<close> error, and the name it
  carries is a helper name that two units at different positions contribute.
\<close>

theorem duplicate_helper_names_fail:
  assumes wf: "\<forall>e\<in>set (extensions store). decoratedAreMethods e"
    and ij: "i < j" "j < length (extensions store)"
    and ni: "n \<in> helperNames (extensions store ! i)"
    and nj: "n \<in> helperNames (extensions store ! j)"
  shows "\<exists>k i' j'. onView N M store = Inl (RemirrorError DUPLICATE_HELPER_NAMES k)
           \<and> i' < j' \<and> j' < length (extensions store)
           \<and> k \<in> helperNames (extensions store ! i')
           \<and> k \<in> helperNames (extensions store ! j')"
proof (cases "onView N M store")
  case (Inr store')
  then obtain hs act ns where
    "onView_loop N M (extensions store) Map.empty Map.empty {} = Inr (hs, act, ns)"
    by (rule onView_Inr)
  from onView_loop_disjoint [OF this ij] ni nj show ?thesis by blast
next
  case (Inl err)
  from onView_loop_Inl [OF onView_Inl [OF Inl]] consider
      (type) "\<exists>e\<in>set (extensions store). \<not> decoratedAreMethods e"
    | (dup) k j' where "err = RemirrorError DUPLICATE_HELPER_NAMES k" "j' < length (extensions store)"
        "k \<in> helperNames (extensions store ! j')"
        "k \<in> {} \<or> (\<exists>i'<j'. k \<in> helperNames (extensions store ! i'))"
    by blast
  then show ?thesis
  proof cases
    case type
    with wf show ?thesis by blast
  next
    case (dup k j')
    then obtain i' where "i' < j'" "k \<in> helperNames (extensions store ! i')" by auto
    with dup Inl show ?thesis by blast
  qed
qed

theorem duplicate_helper_names_fail_witness:
  "decoratedAreMethods MyBeautifulExtension
   \<and> decoratedAreMethods (MyBeautifulExtension\<lparr>name := ''gorgeous''\<rparr>)
   \<and> ''checkBeautyLevel'' \<in> helperNames MyBeautifulExtension
   \<and> ''checkBeautyLevel'' \<in> helperNames (MyBeautifulExtension\<lparr>name := ''gorgeous''\<rparr>)
   \<and> (\<exists>k. onView (\<lambda>st t a. False) (\<lambda>st t. t \<in> set st)
          (manager_store [MyBeautifulExtension, MyBeautifulExtension\<lparr>name := ''gorgeous''\<rparr>])
        = Inl (RemirrorError DUPLICATE_HELPER_NAMES k))"
proof -
  let ?s = "manager_store [MyBeautifulExtension, MyBeautifulExtension\<lparr>name := ''gorgeous''\<rparr>]"
  have wf: "\<forall>e\<in>set (extensions ?s). decoratedAreMethods e"
    by (simp add: manager_store_def decoratedAreMethods_def MyBeautifulExtension_def)
  have n0: "''checkBeautyLevel'' \<in> helperNames (extensions ?s ! 0)"
    by (simp add: eval_defs)
  have n1: "''checkBeautyLevel'' \<in> helperNames (extensions ?s ! 1)"
    by (simp add: eval_defs)
  have l: "(0::nat) < 1" "1 < length (extensions ?s)" by (simp_all add: manager_store_def)
  from duplicate_helper_names_fail [OF wf l n0 n1, of "\<lambda>st t a. False" "\<lambda>st t. t \<in> set st"]
  have "\<exists>k. onView (\<lambda>st t a. False) (\<lambda>st t. t \<in> set st) ?s
        = Inl (RemirrorError DUPLICATE_HELPER_NAMES k)" by blast
  with wf n0 n1 show ?thesis by (simp add: manager_store_def)
qed

text \<open>
  C2: after a successful \<^verbatim>\<open>onView\<close> over units with unique names, the active mapping
  holds for every Mark unit a predicate under the unit's name that ignores its argument
  and evaluates \<^verbatim>\<open>isMarkActive\<close> on the unit's type, and for every Node unit a predicate
  that passes its optional attributes to \<^verbatim>\<open>isNodeActive\<close>; each call evaluates against
  the state the store returns at that call, whatever the state was when the mapping was
  built.
\<close>

theorem active_predicates_read_current_state:
  fixes store :: "('self, 'h, 'o, 't, 'st, 'attrs, 'z, 'frag) ExtensionStore"
  assumes ok: "onView N M store = Inr store'"
    and names: "distinct (map name (extensions store))"
    and e: "e \<in> set (extensions store)"
  shows "(kind e = Mark \<longrightarrow>
            (\<forall>(later :: ('self, 'h, 'o, 't, 'st, 'attrs, 'z, 'frag) ExtensionStore) attrs.
               active later = active store' \<longrightarrow>
               callActive later (name e) attrs = Inr (M (getState later) (type e))))
       \<and> (kind e = Node \<longrightarrow>
            (\<forall>(later :: ('self, 'h, 'o, 't, 'st, 'attrs, 'z, 'frag) ExtensionStore) attrs.
               active later = active store' \<longrightarrow>
               callActive later (name e) attrs = Inr (N (getState later) (type e) attrs)))"
proof -
  from ok obtain hs act ns where
    l: "onView_loop N M (extensions store) Map.empty Map.empty {} = Inr (hs, act, ns)"
    and a: "active store' = Some act"
    by (rule onView_Inr)
  note entry = onView_loop_active [OF l names e]
  show ?thesis
  proof (intro conjI impI allI)
    fix later :: "('self, 'h, 'o, 't, 'st, 'attrs, 'z, 'frag) ExtensionStore" and attrs
    assume "kind e = Mark" "active later = active store'"
    with entry a show "callActive later (name e) attrs = Inr (M (getState later) (type e))"
      by (simp add: callActive_def)
  next
    fix later :: "('self, 'h, 'o, 't, 'st, 'attrs, 'z, 'frag) ExtensionStore" and attrs
    assume "kind e = Node" "active later = active store'"
    with entry a show "callActive later (name e) attrs = Inr (N (getState later) (type e) attrs)"
      by (simp add: callActive_def)
  qed
qed

theorem active_predicates_read_current_state_witness:
  "\<exists>store'. onView (\<lambda>st t a. False) (\<lambda>st t. t \<in> set st)
               (manager_store [HelpersExtension, UnderlineExtension]) = Inr store'
     \<and> distinct (map name (extensions (manager_store [HelpersExtension, UnderlineExtension])))
     \<and> UnderlineExtension \<in> set (extensions (manager_store [HelpersExtension, UnderlineExtension]))
     \<and> kind UnderlineExtension = Mark
     \<and> callActive store' ''underline'' None = Inr False
     \<and> callActive (store'\<lparr>state := [''underline'']\<rparr>) ''underline'' None = Inr True"
proof -
  let ?N = "\<lambda>(st :: string list) (t :: string) (a :: unit option). False"
  let ?M = "\<lambda>(st :: string list) (t :: string). t \<in> set st"
  let ?s = "manager_store [HelpersExtension, UnderlineExtension]"
  obtain store' where ok: "onView ?N ?M ?s = Inr store'"
    by (simp add: eval_defs Let_def)
  have st: "state store' = []"
    using ok by (auto simp: eval_defs Let_def)
  have names: "distinct (map name (extensions ?s))"
    by (simp add: eval_defs Let_def)
  have e: "UnderlineExtension \<in> set (extensions ?s)" by (simp add: manager_store_def)
  have k: "kind UnderlineExtension = Mark" by (simp add: UnderlineExtension_def)
  note fact = active_predicates_read_current_state [OF ok names e]
  from fact k have "callActive store' (name UnderlineExtension) None
      = Inr (?M (getState store') (type UnderlineExtension))" by blast
  then have c1: "callActive store' ''underline'' None = Inr False"
    using st by (simp add: UnderlineExtension_def getState_def)
  from fact k have "callActive (store'\<lparr>state := [''underline'']\<rparr>) (name UnderlineExtension) None
      = Inr (?M (getState (store'\<lparr>state := [''underline'']\<rparr>)) (type UnderlineExtension))"
    by simp
  then have c2: "callActive (store'\<lparr>state := [''underline'']\<rparr>) ''underline'' None = Inr True"
    by (simp add: UnderlineExtension_def getState_def)
  from ok names e k c1 c2 show ?thesis by blast
qed




text \<open>
  C4: a property assignment on the value \<^verbatim>\<open>freeze\<close> returns raises a mutation error.
  On the code it does not: \<^verbatim>\<open>freeze\<close> returns its argument at once, and the assignment
  \<^verbatim>\<open>frozen.a = 2\<close> on \<^verbatim>\<open>freeze({a: 1})\<close> succeeds and changes the object.
\<close>

theorem freeze_does_not_protect:
  "set_property (freeze (Object [''a'' \<mapsto> (1::int)])) ''a'' 2 = Inr (Object [''a'' \<mapsto> 2])"
  by (simp add: freeze_def)

text \<open>
  C5: on a store in which neither \<^verbatim>\<open>active\<close> nor \<^verbatim>\<open>helpers\<close> is set,
  \<^verbatim>\<open>onCreate\<close> leaves both unset, so that every active query and every helper query
  still fails.  A successful \<^verbatim>\<open>onView\<close> sets both, and the \<^verbatim>\<open>helpers\<close> key of the
  extension store, without touching the string handlers: the helpers mapping then holds
  exactly the helper names the units contribute, each with the value of its unit's helper
  object, the active mapping holds exactly the names of the Mark and Node units, and a
  query under any of these names is answered.
\<close>

theorem helpers_installed_only_on_view:
  fixes store :: "('self, 'h, 'o, 't, 'st, 'attrs, 'z, 'frag) ExtensionStore"
  assumes "active store = None" and "helpers store = None" and "extensionStore_helpers store = None"
  shows "active (onCreate html store) = None
     \<and> helpers (onCreate html store) = None
     \<and> extensionStore_helpers (onCreate html store) = None
     \<and> callActive (onCreate html store) key attrs = Inl (TypeError ''active'')
     \<and> callHelper (onCreate html store) key = Inl (TypeError ''helpers'')
     \<and> (\<forall>store'. onView N M (onCreate html store) = Inr store' \<longrightarrow>
          active store' \<noteq> None \<and> helpers store' \<noteq> None \<and> extensionStore_helpers store' \<noteq> None
          \<and> stringHandlers store' = stringHandlers (onCreate html store)
          \<and> (\<exists>hs act. active store' = Some act \<and> helpers store' = Some hs
                \<and> extensionStore_helpers store' = Some hs
                \<and> dom hs = (\<Union>e\<in>set (extensions store). helperNames e)
                \<and> dom act = name ` {e \<in> set (extensions store). kind e \<noteq> Plain})
          \<and> (\<forall>e\<in>set (extensions store). \<forall>eh k v.
                extensionHelpers e = Inr eh \<longrightarrow> DAList.lookup eh k = Some v \<longrightarrow>
                callHelper store' k = Inr v)
          \<and> (\<forall>e\<in>set (extensions store). \<forall>k\<in>helperNames e. \<exists>h. callHelper store' k = Inr h)
          \<and> (\<forall>e\<in>set (extensions store). kind e \<noteq> Plain \<longrightarrow>
                (\<exists>b. callActive store' (name e) attrs = Inr b))
          \<and> (\<forall>k. k \<notin> (\<Union>e\<in>set (extensions store). helperNames e) \<longrightarrow>
                callHelper store' k = Inl (TypeError k)))"
proof (intro conjI allI impI)
  let ?c = "onCreate html store"
  show "active ?c = None" "helpers ?c = None" "extensionStore_helpers ?c = None"
    using assms by (simp_all add: onCreate_def setStringHandler_def)
  then show "callActive ?c key attrs = Inl (TypeError ''active'')"
    "callHelper ?c key = Inl (TypeError ''helpers'')"
    by (simp_all add: callActive_def callHelper_def)
  have ex: "extensions ?c = extensions store" by (simp add: onCreate_def setStringHandler_def)
  fix store'
  assume ok: "onView N M ?c = Inr store'"
  from ok obtain hs act ns where
    l: "onView_loop N M (extensions store) Map.empty Map.empty {} = Inr (hs, act, ns)"
    and a: "active store' = Some act" and h: "helpers store' = Some hs"
    and x: "extensionStore_helpers store' = Some hs"
    unfolding ex [symmetric] by (rule onView_Inr)
  show "active store' \<noteq> None" "helpers store' \<noteq> None" "extensionStore_helpers store' \<noteq> None"
    using a h x by simp_all
  show "stringHandlers store' = stringHandlers ?c"
    using ok by (auto simp: onView_def setStoreKey_active_def setStoreKey_helpers_def
        setExtensionStore_helpers_def split: sum.splits)
  have dh: "dom hs = (\<Union>e\<in>set (extensions store). helperNames e)"
    using onView_loop_helpers_dom [OF l] by simp
  have da: "dom act = name ` {e \<in> set (extensions store). kind e \<noteq> Plain}"
    using onView_loop_active_dom [OF l] by simp
  from a h x dh da
  show "\<exists>hs act. active store' = Some act \<and> helpers store' = Some hs
                \<and> extensionStore_helpers store' = Some hs
                \<and> dom hs = (\<Union>e\<in>set (extensions store). helperNames e)
                \<and> dom act = name ` {e \<in> set (extensions store). kind e \<noteq> Plain}"
    by blast
  show "\<forall>e\<in>set (extensions store). \<forall>eh k v.
                extensionHelpers e = Inr eh \<longrightarrow> DAList.lookup eh k = Some v \<longrightarrow>
                callHelper store' k = Inr v"
  proof (intro ballI allI impI)
    fix e eh k v
    assume "e \<in> set (extensions store)" "extensionHelpers e = Inr eh" "DAList.lookup eh k = Some v"
    with onView_loop_helpers [OF l] have "hs k = Some v" by blast
    with h show "callHelper store' k = Inr v" by (simp add: callHelper_def)
  qed
  show "\<forall>e\<in>set (extensions store). \<forall>k\<in>helperNames e. \<exists>h. callHelper store' k = Inr h"
  proof (intro ballI)
    fix e k assume "e \<in> set (extensions store)" "k \<in> helperNames e"
    with dh have "k \<in> dom hs" by blast
    then obtain v where "hs k = Some v" by blast
    with h have "callHelper store' k = Inr v" by (simp add: callHelper_def)
    then show "\<exists>h. callHelper store' k = Inr h" by blast
  qed
  show "\<forall>e\<in>set (extensions store). kind e \<noteq> Plain \<longrightarrow>
                (\<exists>b. callActive store' (name e) attrs = Inr b)"
  proof (intro ballI impI)
    fix e assume "e \<in> set (extensions store)" "kind e \<noteq> Plain"
    then have "name e \<in> name ` {e \<in> set (extensions store). kind e \<noteq> Plain}" by blast
    with da have "name e \<in> dom act" by simp
    then obtain p where "act (name e) = Some p" by blast
    with a have "callActive store' (name e) attrs = Inr (p (getState store') attrs)"
      by (simp add: callActive_def)
    then show "\<exists>b. callActive store' (name e) attrs = Inr b" by blast
  qed
  fix k
  assume "k \<notin> (\<Union>e\<in>set (extensions store). helperNames e)"
  with dh have "hs k = None" by blast
  with h show "callHelper store' k = Inl (TypeError k)" by (simp add: callHelper_def)
qed

theorem helpers_installed_only_on_view_witness:
  "active (manager_store [HelpersExtension, UnderlineExtension]) = None
   \<and> helpers (manager_store [HelpersExtension, UnderlineExtension]) = None
   \<and> extensionStore_helpers (manager_store [HelpersExtension, UnderlineExtension]) = None
   \<and> callActive (onCreate content (manager_store [HelpersExtension, UnderlineExtension]))
        ''underline'' None = Inl (TypeError ''active'')
   \<and> callHelper (onCreate content (manager_store [HelpersExtension, UnderlineExtension]))
        ''getText'' = Inl (TypeError ''helpers'')
   \<and> (\<exists>store'. onView (\<lambda>st t a. False) (\<lambda>st t. t \<in> set st)
          (onCreate content (manager_store [HelpersExtension, UnderlineExtension])) = Inr store'
        \<and> active store' \<noteq> None \<and> helpers store' \<noteq> None
        \<and> callActive store' ''underline'' None = Inr False
        \<and> callHelper store' ''getText'' = Inr (''helpers'', ''getText'')
        \<and> callHelper store' ''toggleUnderline'' = Inl (TypeError ''toggleUnderline'')
        \<and> Option.bind (helpers store') (\<lambda>hs. Some (dom hs))
            = Some {''isSelectionEmpty'', ''getStateJSON'', ''getJSON'', ''getRemirrorJSON'',
                    ''getText'', ''getHtml''}
        \<and> Option.bind (active store') (\<lambda>act. Some (dom act)) = Some {''underline''})"
proof -
  let ?s = "manager_store [HelpersExtension, UnderlineExtension]"
  let ?N = "\<lambda>(st :: string list) (t :: string) (a :: unit option). False"
  let ?M = "\<lambda>(st :: string list) (t :: string). t \<in> set st"
  have idle: "active ?s = None" "helpers ?s = None" "extensionStore_helpers ?s = None"
    by (simp_all add: manager_store_def)
  note fact = helpers_installed_only_on_view [OF idle, of content _ None ?N ?M]
  have p1: "callActive (onCreate content ?s) ''underline'' None = Inl (TypeError ''active'')"
    by (rule fact [of "''underline''", THEN conjunct2, THEN conjunct2, THEN conjunct2,
          THEN conjunct1])
  have p2: "callHelper (onCreate content ?s) ''getText'' = Inl (TypeError ''helpers'')"
    by (rule fact [of "''getText''", THEN conjunct2, THEN conjunct2, THEN conjunct2,
          THEN conjunct2, THEN conjunct1])
  obtain store' where ok: "onView ?N ?M (onCreate content ?s) = Inr store'"
    by (simp add: eval_defs Let_def onCreate_def setStringHandler_def)
  have c: "callActive store' ''underline'' None = Inr False"
    using ok by (auto simp: eval_defs Let_def onCreate_def setStringHandler_def)
  have g: "callHelper store' ''getText'' = Inr (''helpers'', ''getText'')"
    using ok by (auto simp: eval_defs Let_def onCreate_def setStringHandler_def callHelper_def)
  have hn1: "helperNames HelpersExtension = {''isSelectionEmpty'', ''getStateJSON'', ''getJSON'',
      ''getRemirrorJSON'', ''getText'', ''getHtml''}"
    by (simp add: eval_defs Let_def insert_commute)
  have hn2: "helperNames UnderlineExtension = {}"
    by (simp add: eval_defs)
  have ks: "kind HelpersExtension = Plain" "kind UnderlineExtension = Mark"
      "name UnderlineExtension = ''underline''"
    by (simp_all add: eval_defs)
  have ex: "extensions ?s = [HelpersExtension, UnderlineExtension]" by (simp add: manager_store_def)
  note post = fact [of "''getText''", THEN conjunct2, THEN conjunct2, THEN conjunct2,
      THEN conjunct2, THEN conjunct2, rule_format, OF ok]
  note doms = post [THEN conjunct2, THEN conjunct2, THEN conjunct2, THEN conjunct2, THEN conjunct1]
  from doms obtain hs act where
    a: "active store' = Some act" and h: "helpers store' = Some hs"
    and dh: "dom hs = (\<Union>e\<in>set (extensions ?s). helperNames e)"
    and da: "dom act = name ` {e \<in> set (extensions ?s). kind e \<noteq> Plain}"
    by blast
  have dh': "dom hs = {''isSelectionEmpty'', ''getStateJSON'', ''getJSON'', ''getRemirrorJSON'',
                    ''getText'', ''getHtml''}"
    unfolding dh ex hn1 [symmetric] using hn2 by simp
  have "{e \<in> set [HelpersExtension, UnderlineExtension]. kind e \<noteq> Plain} = {UnderlineExtension}"
    using ks by auto
  then have da': "dom act = {''underline''}" unfolding da ex using ks(3) by simp
  have "hs ''toggleUnderline'' = None"
  proof (rule ccontr)
    assume "hs ''toggleUnderline'' \<noteq> None"
    then have "''toggleUnderline'' \<in> dom hs" by blast
    then show False unfolding dh' by simp
  qed
  then have t: "callHelper store' ''toggleUnderline'' = Inl (TypeError ''toggleUnderline'')"
    using h by (simp add: callHelper_def)
  have b1: "Option.bind (helpers store') (\<lambda>hs. Some (dom hs))
            = Some {''isSelectionEmpty'', ''getStateJSON'', ''getJSON'', ''getRemirrorJSON'',
                    ''getText'', ''getHtml''}"
    unfolding h dh' [symmetric] by simp
  have b2: "Option.bind (active store') (\<lambda>act. Some (dom act)) = Some {''underline''}"
    unfolding a da' [symmetric] by simp
  have n: "active store' \<noteq> None" "helpers store' \<noteq> None" using a h by simp_all
  have post':
    "\<exists>store'. onView ?N ?M (onCreate content ?s) = Inr store'
        \<and> active store' \<noteq> None \<and> helpers store' \<noteq> None
        \<and> callActive store' ''underline'' None = Inr False
        \<and> callHelper store' ''getText'' = Inr (''helpers'', ''getText'')
        \<and> callHelper store' ''toggleUnderline'' = Inl (TypeError ''toggleUnderline'')
        \<and> Option.bind (helpers store') (\<lambda>hs. Some (dom hs))
            = Some {''isSelectionEmpty'', ''getStateJSON'', ''getJSON'', ''getRemirrorJSON'',
                    ''getText'', ''getHtml''}
        \<and> Option.bind (active store') (\<lambda>act. Some (dom act)) = Some {''underline''}"
    by (intro exI [of _ store'] conjI ok n c g t b1 b2)
  show ?thesis by (intro conjI idle p1 p2 post')
qed

text \<open>
  C6, as stated: \<^verbatim>\<open>JSONSendable\<close> has the members of \<^verbatim>\<open>Sendable\<close>, \<^verbatim>\<open>origins\<close>
  among them, with only \<^verbatim>\<open>steps\<close> retyped.  The declaration omits \<^verbatim>\<open>origins\<close>.
\<close>

theorem JSONSendable_origins_counterexample:
  "JSONSendable ''origins'' = None \<and> Sendable ''origins'' = Some (TArray (TRef ''Transaction''))"
  by (simp add: JSONSendable_def Sendable_def Omit_def interface_extends_def)

text \<open>
  C6, amended: \<^verbatim>\<open>JSONSendable\<close> has exactly the members \<^verbatim>\<open>version\<close>,
  \<^verbatim>\<open>clientID\<close> and \<^verbatim>\<open>steps\<close>; the first two with the types they have in
  \<^verbatim>\<open>Sendable\<close>, \<^verbatim>\<open>steps\<close> as an array of plain objects; \<^verbatim>\<open>origins\<close> is omitted.
\<close>

theorem JSONSendable_fields:
  "dom JSONSendable = {''version'', ''clientID'', ''steps''}
   \<and> JSONSendable ''version'' = Sendable ''version''
   \<and> JSONSendable ''clientID'' = Sendable ''clientID''
   \<and> JSONSendable ''steps'' = Some (TArray (TRef ''PlainObject''))
   \<and> JSONSendable ''origins'' = None
   \<and> dom Sendable = {''version'', ''clientID'', ''steps'', ''origins''}"
  by (auto simp: JSONSendable_def Sendable_def Omit_def interface_extends_def dom_def map_add_def restrict_map_def split: if_splits)

text \<open>
  C7: a command whose return type is the non-chainable command function is mapped to
  \<^verbatim>\<open>void\<close> by \<^verbatim>\<open>MapToChainedCommand\<close> and to \<^verbatim>\<open>never\<close> on the chain surface,
  neither of which can be invoked, while the direct surface holds a callable
  \<^verbatim>\<open>CommandShape\<close> under the same name.
\<close>

theorem non_chainable_command_surfaces:
  assumes "RawCommands Command = Some raw"
    and "extends_NonChainableCommandFunction (ReturnType raw)"
  shows "MapToChainedCommand RawCommands Command = Some TVoid
     \<and> \<not> callable TVoid
     \<and> ChainedFromExtensions RawCommands Command = Some TNever
     \<and> \<not> callable TNever
     \<and> MapToUnchainedCommand RawCommands Command = Some (TCommandShape (Parameters raw))
     \<and> callable (TCommandShape (Parameters raw))"
  using assms
  by (auto simp: MapToChainedCommand_def ChainedFromExtensions_def MapToUnchainedCommand_def
      intersect_member_def ChainedCommandRunParameter_def split: option.splits)

theorem non_chainable_command_surfaces_witness:
  "[''toggleCode'' \<mapsto> TFunction [] CommandFunction,
    ''customDispatch'' \<mapsto> TFunction [CommandFunction] NonChainableCommandFunction] ''customDispatch''
      = Some (TFunction [CommandFunction] NonChainableCommandFunction)
   \<and> extends_NonChainableCommandFunction (ReturnType (TFunction [CommandFunction] NonChainableCommandFunction))
   \<and> ChainedFromExtensions
        [''toggleCode'' \<mapsto> TFunction [] CommandFunction,
         ''customDispatch'' \<mapsto> TFunction [CommandFunction] NonChainableCommandFunction] ''customDispatch''
      = Some TNever
   \<and> MapToUnchainedCommand
        [''toggleCode'' \<mapsto> TFunction [] CommandFunction,
         ''customDispatch'' \<mapsto> TFunction [CommandFunction] NonChainableCommandFunction] ''customDispatch''
      = Some (TCommandShape [CommandFunction])
   \<and> ChainedFromExtensions
        [''toggleCode'' \<mapsto> TFunction [] CommandFunction,
         ''customDispatch'' \<mapsto> TFunction [CommandFunction] NonChainableCommandFunction] ''toggleCode''
      = Some (TFunction [] (TRef ''ChainedFromExtensions''))"
proof -
  let ?R = "[''toggleCode'' \<mapsto> TFunction [] CommandFunction,
    ''customDispatch'' \<mapsto> TFunction [CommandFunction] NonChainableCommandFunction]"
  have r: "?R ''customDispatch'' = Some (TFunction [CommandFunction] NonChainableCommandFunction)"
    by simp
  have n: "extends_NonChainableCommandFunction
      (ReturnType (TFunction [CommandFunction] NonChainableCommandFunction))"
    by (simp add: NonChainableCommandFunction_def)
  have t: "ChainedFromExtensions ?R ''toggleCode'' = Some (TFunction [] (TRef ''ChainedFromExtensions''))"
    by (simp add: ChainedFromExtensions_def MapToChainedCommand_def intersect_member_def
        ChainedCommandRunParameter_def CommandFunction_def)
  from non_chainable_command_surfaces
         [of ?R "''customDispatch''" "TFunction [CommandFunction] NonChainableCommandFunction",
          OF r n] r n t
  show ?thesis by simp
qed

text \<open>
  C8: \<^verbatim>\<open>onCreate\<close> adds exactly the handlers \<^verbatim>\<open>text\<close> and \<^verbatim>\<open>html\<close> and changes
  nothing else; the \<^verbatim>\<open>text\<close> handler wraps the content in a \<^verbatim>\<open>pre\<close> element and
  hands the options with the wrapped content to the handler registered under
  \<^verbatim>\<open>html\<close>, also when that handler has been replaced since.
\<close>

theorem onCreate_registers_text_and_html:
  "stringHandlers (onCreate html store)
     = (stringHandlers store)(''text'' \<mapsto> BoundTextToProsemirrorNode, ''html'' \<mapsto> FunctionHandler html)
   \<and> dom (stringHandlers (onCreate html store)) = dom (stringHandlers store) \<union> {''text'', ''html''}
   \<and> extensions (onCreate html store) = extensions store
   \<and> state (onCreate html store) = state store
   \<and> callStringHandler (onCreate html store) ''text'' options
     = Inr (html (options\<lparr>content := ''<pre>'' @ content options @ ''</pre>''\<rparr>))
   \<and> callStringHandler (onCreate html store) ''text'' options
     = callStringHandler (onCreate html store) ''html''
         (options\<lparr>content := ''<pre>'' @ content options @ ''</pre>''\<rparr>)
   \<and> callStringHandler (setStringHandler ''html'' (FunctionHandler other) (onCreate html store))
         ''text'' options
     = Inr (other (options\<lparr>content := ''<pre>'' @ content options @ ''</pre>''\<rparr>))"
  by (auto simp: onCreate_def setStringHandler_def callStringHandler_def textToProsemirrorNode_def
      Let_def)

text \<open>
  C9: after a successful \<^verbatim>\<open>onView\<close>, for every unit of the list and every name in
  its \<^verbatim>\<open>decoratedHelpers\<close>, the helpers mapping (in the manager store and in the
  extension store) holds under that name the unit's method bound to that unit.
\<close>

theorem decorated_helpers_bound_to_owner:
  assumes ok: "onView N M store = Inr store'"
    and e: "e \<in> set (extensions store)"
    and dec: "decorated_entry (decoratedHelpers e) k = Some options"
  shows "\<exists>m hs. methods e k = Some m \<and> helpers store' = Some hs \<and> hs k = Some (m (self e))
           \<and> extensionStore_helpers store' = Some hs"
proof -
  from ok obtain hs act ns where
    l: "onView_loop N M (extensions store) Map.empty Map.empty {} = Inr (hs, act, ns)"
    and h: "helpers store' = Some hs" "extensionStore_helpers store' = Some hs"
    by (rule onView_Inr)
  from dec obtain d where d: "decoratedHelpers e = Some d" "DAList.lookup d k = Some options"
    by (auto simp: decorated_entry_def split: option.splits)
  from d(2) have "(k, options) \<in> set (DAList.impl_of d)"
    unfolding lookup_impl_of by (rule map_of_SomeD)
  then have "fst (k, options) \<in> fst ` set (DAList.impl_of d)" by (rule imageI)
  then have kd: "k \<in> fst ` set (DAList.impl_of d)" by simp
  from onView_loop_names [OF l] e have "decoratedAreMethods e" by blast
  obtain eh where eh: "extensionHelpers e = Inr eh"
  proof (cases "extensionHelpers e")
    case (Inl err)
    from extensionHelpers_Inl [OF this] \<open>decoratedAreMethods e\<close> show ?thesis by blast
  next
    case (Inr eh)
    then show ?thesis by (rule that)
  qed
  from extensionHelpers_decorated [OF eh d(1) kd] obtain m where
    m: "methods e k = Some m" "DAList.lookup eh k = Some (m (self e))" by blast
  from onView_loop_helpers [OF l] e eh m(2) have "hs k = Some (m (self e))" by blast
  with m(1) h show ?thesis by blast
qed

theorem decorated_helpers_bound_to_owner_witness:
  "\<exists>store'. onView (\<lambda>st t a. False) (\<lambda>st t. t \<in> set st)
               (manager_store [HelpersExtension, UnderlineExtension]) = Inr store'
     \<and> HelpersExtension \<in> set (extensions (manager_store [HelpersExtension, UnderlineExtension]))
     \<and> decorated_entry (decoratedHelpers HelpersExtension) ''getText'' = Some []
     \<and> Option.bind (helpers store') (\<lambda>hs. hs ''getText'') = Some (''helpers'', ''getText'')"
proof -
  let ?N = "\<lambda>(st :: string list) (t :: string) (a :: unit option). False"
  let ?M = "\<lambda>(st :: string list) (t :: string). t \<in> set st"
  let ?s = "manager_store [HelpersExtension, UnderlineExtension]"
  obtain store' where ok: "onView ?N ?M ?s = Inr store'"
    by (simp add: eval_defs Let_def)
  have e: "HelpersExtension \<in> set (extensions ?s)" by (simp add: manager_store_def)
  have dec: "decorated_entry (decoratedHelpers HelpersExtension) ''getText'' = Some []"
    by (simp add: eval_defs Let_def)
  from decorated_helpers_bound_to_owner [OF ok e dec] obtain m hs where
    "methods HelpersExtension ''getText'' = Some m" "helpers store' = Some hs"
    "hs ''getText'' = Some (m (self HelpersExtension))" by blast
  moreover have "methods HelpersExtension ''getText'' = Some (bound ''getText'')"
    "self HelpersExtension = ''helpers''"
    by (simp_all add: HelpersExtension_def HelpersExtension_class_def helper_def)
  ultimately have "Option.bind (helpers store') (\<lambda>hs. hs ''getText'') = Some (''helpers'', ''getText'')"
    by (auto simp: bound_def)
  with ok e dec show ?thesis by blast
qed

text \<open>
  C10: when a unit has a decorated helper with the name of an entry its
  \<^verbatim>\<open>createHelpers\<close> returns, the merged helper object holds the bound method under that
  name, once; a list of that unit alone passes \<^verbatim>\<open>onView\<close> with the bound method
  installed; and whenever \<^verbatim>\<open>onView\<close> fails with a \<^verbatim>\<open>RemirrorError\<close>, it is the
  duplicate-helper error for a name that units at two different positions contribute.
\<close>

theorem same_unit_collision_is_silent:
  fixes store :: "('self, 'h, 'o, 't, 'st, 'attrs, 'z, 'frag) ExtensionStore"
  assumes created: "createHelpers e = Some create"
      "DAList.lookup (create (self e)) k = Some created"
    and dec: "decorated_entry (decoratedHelpers e) k = Some options"
    and wf: "decoratedAreMethods e"
  shows "(\<exists>eh m. extensionHelpers e = Inr eh \<and> methods e k = Some m
            \<and> DAList.lookup eh k = Some (m (self e))
            \<and> distinct (map fst (DAList.impl_of eh)))
       \<and> (extensions store = [e] \<longrightarrow>
            (\<exists>store' hs m. onView N M store = Inr store' \<and> helpers store' = Some hs
               \<and> methods e k = Some m \<and> hs k = Some (m (self e))))
       \<and> (\<forall>c k'. onView N M store = Inl (RemirrorError c k') \<longrightarrow>
            c = DUPLICATE_HELPER_NAMES
            \<and> (\<exists>i j. i < j \<and> j < length (extensions store)
                  \<and> k' \<in> helperNames (extensions store ! i)
                  \<and> k' \<in> helperNames (extensions store ! j)))"
proof (intro conjI impI allI)
  from wf obtain eh where eh: "extensionHelpers e = Inr eh"
    by (blast dest: extensionHelpers_total)
  from dec obtain d where d: "decoratedHelpers e = Some d" "DAList.lookup d k = Some options"
    by (auto simp: decorated_entry_def split: option.splits)
  from d(2) have "(k, options) \<in> set (DAList.impl_of d)"
    unfolding lookup_impl_of by (rule map_of_SomeD)
  then have "fst (k, options) \<in> fst ` set (DAList.impl_of d)" by (rule imageI)
  then have kd: "k \<in> fst ` set (DAList.impl_of d)" by simp
  from extensionHelpers_decorated [OF eh d(1) kd] obtain m where
    m: "methods e k = Some m" "DAList.lookup eh k = Some (m (self e))" by blast
  with eh show "\<exists>eh m. extensionHelpers e = Inr eh \<and> methods e k = Some m
            \<and> DAList.lookup eh k = Some (m (self e))
            \<and> distinct (map fst (DAList.impl_of eh))"
    by auto
  {
    assume single: "extensions store = [e]"
    have "\<exists>res. onView_loop N M [e] Map.empty Map.empty {} = Inr res"
      by (rule onView_loop_succeeds) (use wf in auto)
    then obtain hs act ns where
      l: "onView_loop N M [e] Map.empty Map.empty {} = Inr (hs, act, ns)"
      by (metis prod_cases3)
    from onView_loop_helpers [OF l] eh m(2) have hk: "hs k = Some (m (self e))" by simp
    let ?store' = "setExtensionStore_helpers hs (setStoreKey_helpers hs (setStoreKey_active act store))"
    have "onView N M store = Inr ?store'" using l single by (simp add: onView_def)
    moreover have "helpers ?store' = Some hs"
      by (simp add: setStoreKey_helpers_def setExtensionStore_helpers_def)
    ultimately show "\<exists>store' hs m. onView N M store = Inr store' \<and> helpers store' = Some hs
               \<and> methods e k = Some m \<and> hs k = Some (m (self e))"
      using m(1) hk by blast
  }
  fix c k'
  assume fail: "onView N M store = Inl (RemirrorError c k')"
  from onView_loop_Inl [OF onView_Inl [OF fail]] obtain j where
    c: "c = DUPLICATE_HELPER_NAMES" and j: "j < length (extensions store)"
      "k' \<in> helperNames (extensions store ! j)"
      "\<exists>i<j. k' \<in> helperNames (extensions store ! i)"
    by auto
  from c show "c = DUPLICATE_HELPER_NAMES" .
  from j show "\<exists>i j. i < j \<and> j < length (extensions store)
                  \<and> k' \<in> helperNames (extensions store ! i)
                  \<and> k' \<in> helperNames (extensions store ! j)"
    by blast
qed

theorem same_unit_collision_is_silent_witness:
  "createHelpers BeautifulWithDecoratedHelper = Some (\<lambda>this. DAList.update ''checkBeautyLevel'' (this, ''createHelpers().checkBeautyLevel'') DAList.empty)
   \<and> DAList.lookup (DAList.update ''checkBeautyLevel'' (self BeautifulWithDecoratedHelper, ''createHelpers().checkBeautyLevel'') DAList.empty) ''checkBeautyLevel''
       = Some (''beautiful'', ''createHelpers().checkBeautyLevel'')
   \<and> decorated_entry (decoratedHelpers BeautifulWithDecoratedHelper) ''checkBeautyLevel'' = Some []
   \<and> decoratedAreMethods BeautifulWithDecoratedHelper
   \<and> (\<exists>store' hs. onView (\<lambda>st t a. False) (\<lambda>st t. t \<in> set st)
          (manager_store [BeautifulWithDecoratedHelper]) = Inr store'
        \<and> helpers store' = Some hs
        \<and> hs ''checkBeautyLevel'' = Some (''beautiful'', ''checkBeautyLevel''))"
proof -
  let ?e = BeautifulWithDecoratedHelper
  let ?create = "\<lambda>this :: string. DAList.update ''checkBeautyLevel''
      (this, ''createHelpers().checkBeautyLevel'') DAList.empty"
  let ?N = "\<lambda>(st :: string list) (t :: string) (a :: unit option). False"
  let ?M = "\<lambda>(st :: string list) (t :: string). t \<in> set st"
  let ?s = "manager_store [?e]"
  have c1: "createHelpers ?e = Some ?create"
    by (simp add: BeautifulWithDecoratedHelper_def eval_defs)
  have c2: "DAList.lookup (?create (self ?e)) ''checkBeautyLevel''
      = Some (''beautiful'', ''createHelpers().checkBeautyLevel'')"
    by (simp add: BeautifulWithDecoratedHelper_def eval_defs)
  have dec: "decorated_entry (decoratedHelpers ?e) ''checkBeautyLevel'' = Some []"
    by (simp add: BeautifulWithDecoratedHelper_def eval_defs)
  have wf: "decoratedAreMethods ?e"
    by (simp add: BeautifulWithDecoratedHelper_def eval_defs)
  have single: "extensions ?s = [?e]" by (simp add: manager_store_def)
  have m: "methods ?e ''checkBeautyLevel'' = Some (bound ''checkBeautyLevel'')" "self ?e = ''beautiful''"
    by (simp_all add: BeautifulWithDecoratedHelper_def eval_defs)
  from same_unit_collision_is_silent [OF c1 c2 dec wf, of ?s ?N ?M] single
  obtain store' hs m where "onView ?N ?M ?s = Inr store'" "helpers store' = Some hs"
    "methods ?e ''checkBeautyLevel'' = Some m" "hs ''checkBeautyLevel'' = Some (m (self ?e))"
    by blast
  with m have "\<exists>store' hs. onView ?N ?M ?s = Inr store' \<and> helpers store' = Some hs
        \<and> hs ''checkBeautyLevel'' = Some (''beautiful'', ''checkBeautyLevel'')"
    by (auto simp: bound_def)
  with c1 c2 dec wf show ?thesis by simp
qed

end
